theory Spec2Isabelle
  imports Complex_Main "HOL-Library.Word" "HOL-Library.Signed_Division" "HOL-Library.Multiset"
begin

section \<open>Machine integers and run-time panics of the Go program\<close>

text \<open>
  The file \<^verbatim>\<open>cuda.go\<close> is built with the \<^verbatim>\<open>cuda\<close> tag, that is on the 64-bit
  targets of the CUDA toolkit, where Go's \<^verbatim>\<open>int\<close> and \<^verbatim>\<open>uint\<close> are 64 bits wide.
  An \<^verbatim>\<open>int\<close> is a 64-bit word read in two's complement (\<open>sint\<close>): \<open>+\<close>, \<open>-\<close> and \<open>*\<close>
  wrap around, \<^verbatim>\<open>/\<close> and \<^verbatim>\<open>%\<close> truncate towards zero and panic on a zero divisor,
  comparisons are signed. A run-time panic is the \<open>Inl\<close> branch of every result.
\<close>

type_synonym go_int = "64 word"
type_synonym go_uint = "64 word"
type_synonym go_int64 = "64 word"

datatype panic =
    IndexOutOfRange
  | DivideByZero
  | NilMapAssignment
  | NilDereference
  | MakeSliceLenOutOfRange
  | CloseOfClosedChannel

definition pbind :: "panic + 'a \<Rightarrow> ('a \<Rightarrow> panic + 'b) \<Rightarrow> panic + 'b" where
  "pbind r k = (case r of Inl p \<Rightarrow> Inl p | Inr x \<Rightarrow> k x)"

definition go_div :: "go_int \<Rightarrow> go_int \<Rightarrow> panic + go_int" where
  "go_div a b = (if b = 0 then Inl DivideByZero else Inr (word_of_int (sint a sdiv sint b)))"

definition go_mod :: "go_int \<Rightarrow> go_int \<Rightarrow> panic + go_int" where
  "go_mod a b = (if b = 0 then Inl DivideByZero else Inr (word_of_int (sint a smod sint b)))"

definition go_ge :: "go_int \<Rightarrow> go_int \<Rightarrow> bool" where
  "go_ge a b = (sint b \<le> sint a)"

text \<open>\<^verbatim>\<open>xs[i]\<close> on a slice: a negative index and an index from \<^verbatim>\<open>len(xs)\<close> on panic.\<close>

definition go_index :: "'a list \<Rightarrow> go_int \<Rightarrow> panic + 'a" where
  "go_index xs i =
     (if 0 \<le> sint i \<and> sint i < int (length xs) then Inr (xs ! nat (sint i))
      else Inl IndexOutOfRange)"

section \<open>The data model: \<^verbatim>\<open>ExternMetadata\<close> and what it points to\<close>

text \<open>
  \<^verbatim>\<open>Memory\<close> is an interface of the package whose values are handles of device
  allocations; the arena never looks inside one. \<^verbatim>\<open>Device\<close> is an integer type
  (\<^verbatim>\<open>d := int(dev)\<close>). \<^verbatim>\<open>noopError\<close> is the advisory error of \<^verbatim>\<open>Get\<close>.
\<close>

type_synonym Memory = nat
type_synonym Device = go_int

datatype error = noopError

text \<open>
  Modelled from the spec: the type \<^verbatim>\<open>memoryQueue\<close> with \<^verbatim>\<open>newMemoryQueue\<close>,
  \<^verbatim>\<open>add\<close> and \<^verbatim>\<open>get\<close> is declared in another file of the package. The spec describes
  a pool as a collection of the blocks of one size class, created empty, where \<^verbatim>\<open>add\<close>
  inserts a block and \<^verbatim>\<open>get\<close> answers ``not found'' on an empty pool and otherwise
  removes and returns one block. The retrieval order is left open by the spec, so it is
  a parameter here: \<open>policy bs\<close> is the position of the block handed out from the
  non-empty content \<open>bs\<close> (\<open>\<lambda>_. 0\<close> is first-in first-out), clamped to the content.
\<close>

record memoryQueue =
  mq_size :: go_uint
  mq_blocks :: "Memory list"

definition newMemoryQueue :: "go_uint \<Rightarrow> memoryQueue" where
  "newMemoryQueue sz = \<lparr>mq_size = sz, mq_blocks = []\<rparr>"

definition add :: "memoryQueue \<Rightarrow> Memory \<Rightarrow> memoryQueue" where
  "add pool mem = pool\<lparr>mq_blocks := mq_blocks pool @ [mem]\<rparr>"

definition get :: "(Memory list \<Rightarrow> nat) \<Rightarrow> memoryQueue \<Rightarrow> (Memory option \<times> error option) \<times> memoryQueue" where
  "get policy pool =
     (case mq_blocks pool of
        [] \<Rightarrow> ((None, Some noopError), pool)
      | x # xs \<Rightarrow>
          (let i = min (policy (x # xs)) (length xs)
           in ((Some ((x # xs) ! i), None),
               pool\<lparr>mq_blocks := take i (x # xs) @ drop (Suc i) (x # xs)\<rparr>)))"

text \<open>
  The struct. Slices are lists (\<^verbatim>\<open>nil\<close> is \<open>[]\<close>), a pointer or interface that may be
  \<^verbatim>\<open>nil\<close> is an \<open>option\<close>, a Go map that may be \<^verbatim>\<open>nil\<close> is an optional map, and the
  channel field holds the address of a channel in the store of the run-time state below.
  The one-letter fields \<^verbatim>\<open>b\<close>, \<^verbatim>\<open>c\<close>, \<^verbatim>\<open>m\<close> and \<^verbatim>\<open>f\<close> are \<open>md_b\<close>, \<open>md_c\<close>, \<open>md_m\<close>
  and \<open>md_f\<close>. The types \<open>'ctx\<close> and \<open>'blas\<close> are the states of a
  \<^verbatim>\<open>cu.BatchedContext\<close> and of the BLAS backend, which belong to other packages.
\<close>

record ('ctx, 'blas) ExternMetadata =
  warp :: "go_int list"
  mtpb :: "go_int list"
  mgdx :: "go_int list"
  mgdy :: "go_int list"
  mgdz :: "go_int list"
  mbdx :: "go_int list"
  mbdy :: "go_int list"
  mbdz :: "go_int list"
  freeMem :: "go_int64 list"
  totalMem :: "go_int64 list"
  arena :: "(go_uint \<rightharpoonup> memoryQueue) option list"
  md_b :: "'blas option"
  md_c :: "'ctx option list"
  hasWork :: "bool list"
  workAvailable :: "nat option"
  md_m :: "(string \<rightharpoonup> nat list) option"
  md_f :: "(string \<rightharpoonup> nat list) option"
  blasHasWork :: bool
  initialzed :: bool

text \<open>
  What \<^verbatim>\<open>init\<close> creates outside the struct: the channels (\<open>chans ! a\<close> says whether the
  channel at address \<open>a\<close> has been closed), the \<^verbatim>\<open>collectWork\<close> goroutines started, by
  device, and whether \<^verbatim>\<open>collectBLASWork\<close> has been started.
\<close>

record runtime =
  chans :: "bool list"
  relays :: "nat list"
  blas_relay :: bool

text \<open>
  The package \<^verbatim>\<open>cu\<close> and the BLAS backend are other repositories: their calls are
  parameters. \<open>MemInfo api i\<close> is the driver's answer when it is asked while device
  \<open>i\<close> is being set up.
\<close>

datatype cu_error = OutOfMemory | OtherError nat

type_synonym cuDevice = nat
type_synonym cuContext = nat

record ('ctx, 'blas) extern =
  NumDevices :: "cu_error + go_int"
  GetDevice :: "go_int \<Rightarrow> cu_error + cuDevice"
  MakeContext :: "cuDevice \<Rightarrow> cu_error + cuContext"
  Attributes :: "cuDevice \<Rightarrow> cu_error + go_int list"
  MemInfo :: "nat \<Rightarrow> cu_error + (go_int64 \<times> go_int64)"
  NewBatchedContext :: "cuContext \<Rightarrow> cuDevice \<Rightarrow> 'ctx"
  SetCurrent :: "'ctx \<Rightarrow> 'ctx"
  ctx_DoWork :: "'ctx \<Rightarrow> 'ctx"
  ctx_Errors :: "'ctx \<Rightarrow> cu_error option"
  blas_DoWork :: "'blas \<Rightarrow> 'blas"

section \<open>The launch geometry: \<^verbatim>\<open>calcBlocks\<close> and \<^verbatim>\<open>ElemGridSize\<close>\<close>

definition calcBlocks :: "go_int \<Rightarrow> go_int \<Rightarrow> panic + go_int" where
  "calcBlocks n maxThreads = go_div (n + maxThreads - 1) maxThreads"

type_synonym geometry = "go_int \<times> go_int \<times> go_int \<times> go_int \<times> go_int \<times> go_int"

text \<open>
  The result is (gridDimX, gridDimY, gridDimZ, blockDimX, blockDimY, blockDimZ). The
  function opens with \<^verbatim>\<open>if dev > len(md.warp) { // error }\<close>, whose body is empty: it
  does nothing, and the four slice reads that follow are the first thing that happens.
\<close>

definition ElemGridSize :: "('ctx, 'blas) ExternMetadata \<Rightarrow> go_int \<Rightarrow> go_int \<Rightarrow> panic + geometry" where
  "ElemGridSize md n dev =
     pbind (go_index (mtpb md) dev) (\<lambda>maxThreads.
     pbind (go_index (mgdx md) dev) (\<lambda>maxGridX.
     pbind (go_index (mgdy md) dev) (\<lambda>maxGridY.
     pbind (go_index (mgdz md) dev) (\<lambda>maxGridZ.
     pbind (calcBlocks n maxThreads) (\<lambda>blocks.
       if blocks = 1 then Inr (1, 1, 1, n, 1, 1)
       else if go_ge blocks (maxGridX * maxGridY * maxGridZ) then Inr (1, 1, 1, 1, 1, 1)
       else if go_ge blocks (maxGridX * maxGridY) then
         pbind (go_mod blocks (maxGridX * maxGridY)) (\<lambda>r.
         pbind (calcBlocks r maxGridZ) (\<lambda>gridDimZ.
           Inr (maxGridX, maxGridY, gridDimZ, maxThreads, 1, 1)))
       else if go_ge blocks maxGridX then
         pbind (go_mod blocks maxGridX) (\<lambda>r.
         pbind (calcBlocks r maxGridY) (\<lambda>gridDimY.
           Inr (maxGridX, gridDimY, 1, maxThreads, 1, 1)))
       else Inr (blocks, 1, 1, maxThreads, 1, 1))))))"

text \<open>
  The launch geometry in the words of the spec, on mathematical integers: \<open>ceil_div\<close> is
  the ceiling of the quotient, and the five cases are tried in the order of the spec.
\<close>

definition ceil_div :: "int \<Rightarrow> int \<Rightarrow> int" where
  "ceil_div a b = - ((- a) div b)"

definition spec_ElemGridSize ::
  "int \<Rightarrow> int \<Rightarrow> int \<Rightarrow> int \<Rightarrow> int \<Rightarrow> int \<times> int \<times> int \<times> int \<times> int \<times> int" where
  "spec_ElemGridSize n maxThreadsPerBlock maxGridX maxGridY maxGridZ =
     (let blocks = ceil_div n maxThreadsPerBlock in
      if blocks = 1 then (1, 1, 1, n, 1, 1)
      else if blocks \<ge> maxGridX * maxGridY * maxGridZ then (1, 1, 1, 1, 1, 1)
      else if blocks \<ge> maxGridX * maxGridY then
        (maxGridX, maxGridY, ceil_div (blocks mod (maxGridX * maxGridY)) maxGridZ,
         maxThreadsPerBlock, 1, 1)
      else if blocks \<ge> maxGridX then
        (maxGridX, ceil_div (blocks mod maxGridX) maxGridY, 1, maxThreadsPerBlock, 1, 1)
      else (blocks, 1, 1, maxThreadsPerBlock, 1, 1))"

definition geom_ints :: "geometry \<Rightarrow> int \<times> int \<times> int \<times> int \<times> int \<times> int" where
  "geom_ints g =
     (case g of (gx, gy, gz, bx, by, bz) \<Rightarrow> (sint gx, sint gy, sint gz, sint bx, sint by, sint bz))"

definition volume :: "geometry \<Rightarrow> int" where
  "volume g =
     (case g of (gx, gy, gz, bx, by, bz) \<Rightarrow> sint gx * sint gy * sint gz * sint bx * sint by * sint bz)"

section \<open>The memory arena: \<^verbatim>\<open>Get\<close> and \<^verbatim>\<open>Put\<close>\<close>

text \<open>
  Reading a key of a \<^verbatim>\<open>nil\<close> map finds nothing; assigning into a \<^verbatim>\<open>nil\<close> map panics.
  A pool is reached only through its entry in the arena, so the pointer is modelled by
  the entry's value and a change of the pool is written back to the entry.
\<close>

definition Get ::
  "(Memory list \<Rightarrow> nat) \<Rightarrow> ('ctx, 'blas) ExternMetadata \<Rightarrow> Device \<Rightarrow> go_uint
     \<Rightarrow> panic + ((Memory option \<times> error option) \<times> ('ctx, 'blas) ExternMetadata)" where
  "Get policy m dev sz =
     (let d = dev in
      if int (length (arena m)) \<le> sint d then Inr ((None, Some noopError), m)
      else
        pbind (go_index (arena m) d) (\<lambda>pools.
          case (case pools of None \<Rightarrow> None | Some mp \<Rightarrow> mp sz) of
            Some pool \<Rightarrow>
              (case get policy pool of (res, pool') \<Rightarrow>
                 Inr (res, m\<lparr>arena := (arena m)[nat (sint d) := map_option (\<lambda>mp. mp(sz \<mapsto> pool')) pools]\<rparr>))
          | None \<Rightarrow> Inr ((None, Some noopError), m)))"

definition Put ::
  "('ctx, 'blas) ExternMetadata \<Rightarrow> Device \<Rightarrow> Memory \<Rightarrow> go_uint
     \<Rightarrow> panic + ('ctx, 'blas) ExternMetadata" where
  "Put m dev mem sz =
     (let d = dev in
      if int (length (arena m)) \<le> sint d then Inr m
      else
        pbind (go_index (arena m) d) (\<lambda>pools.
          case (case pools of None \<Rightarrow> None | Some mp \<Rightarrow> mp sz) of
            Some pool \<Rightarrow>
              Inr (m\<lparr>arena := (arena m)[nat (sint d) := map_option (\<lambda>mp. mp(sz \<mapsto> add pool mem)) pools]\<rparr>)
          | None \<Rightarrow>
              (case pools of
                 None \<Rightarrow> Inl NilMapAssignment
               | Some mp \<Rightarrow>
                   (let pool = newMemoryQueue sz; mp1 = mp(sz \<mapsto> pool)
                    in Inr (m\<lparr>arena := (arena m)[nat (sint d) := Some (mp1(sz \<mapsto> add pool mem))]\<rparr>)))))"

section \<open>Flushing: \<^verbatim>\<open>DoWork\<close>\<close>

text \<open>
  \<^verbatim>\<open>for i, hw := range m.hasWork\<close> visits the indices of the slice in increasing order
  and reads element \<open>i\<close> when it gets there. \<^verbatim>\<open>m.c[i]\<close> panics when \<open>i\<close> is beyond
  \<^verbatim>\<open>m.c\<close>, and a method of \<^verbatim>\<open>cu.BatchedContext\<close> called through a \<^verbatim>\<open>nil\<close> pointer is
  taken to panic. The first component of the result is the error returned.
\<close>

definition ctx_at :: "('ctx, 'blas) ExternMetadata \<Rightarrow> nat \<Rightarrow> panic + 'ctx" where
  "ctx_at m i =
     (if i < length (md_c m)
      then (case md_c m ! i of None \<Rightarrow> Inl NilDereference | Some cx \<Rightarrow> Inr cx)
      else Inl IndexOutOfRange)"

fun DoWork_loop ::
  "('ctx, 'blas) extern \<Rightarrow> nat list \<Rightarrow> ('ctx, 'blas) ExternMetadata
     \<Rightarrow> panic + (cu_error option \<times> ('ctx, 'blas) ExternMetadata)" where
  "DoWork_loop api [] m = Inr (None, m)"
| "DoWork_loop api (i # is) m =
     (if hasWork m ! i then
        pbind (ctx_at m i) (\<lambda>cx.
          let cx' = ctx_DoWork api cx;
              m1 = m\<lparr>md_c := (md_c m)[i := Some cx']\<rparr>
          in case ctx_Errors api cx' of
               Some err \<Rightarrow> Inr (Some err, m1)
             | None \<Rightarrow> DoWork_loop api is (m1\<lparr>hasWork := (hasWork m1)[i := False]\<rparr>))
      else DoWork_loop api is m)"

definition DoWork ::
  "('ctx, 'blas) extern \<Rightarrow> ('ctx, 'blas) ExternMetadata
     \<Rightarrow> panic + (cu_error option \<times> ('ctx, 'blas) ExternMetadata)" where
  "DoWork api m =
     pbind (DoWork_loop api [0..<length (hasWork m)] m) (\<lambda>(err, m1).
       case err of
         Some e \<Rightarrow> Inr (Some e, m1)
       | None \<Rightarrow>
           if blasHasWork m1 then
             (case md_b m1 of
                None \<Rightarrow> Inl NilDereference
              | Some bl \<Rightarrow> Inr (None, m1\<lparr>md_b := Some (blas_DoWork api bl), blasHasWork := False\<rparr>))
           else Inr (None, m1))"

section \<open>The registry lifecycle: \<^verbatim>\<open>init\<close> and \<^verbatim>\<open>initFail\<close>\<close>

type_synonym ('ctx, 'blas) registry = "('ctx, 'blas) ExternMetadata \<times> runtime"

definition close_chan :: "nat \<Rightarrow> runtime \<Rightarrow> panic + runtime" where
  "close_chan a rt =
     (if a < length (chans rt) \<and> \<not> chans rt ! a then Inr (rt\<lparr>chans := (chans rt)[a := True]\<rparr>)
      else Inl CloseOfClosedChannel)"

definition initFail :: "('ctx, 'blas) registry \<Rightarrow> panic + ('ctx, 'blas) registry" where
  "initFail s =
     (case s of (m, rt) \<Rightarrow>
        let m1 = m\<lparr>md_c := [], md_m := None, md_f := None\<rparr> in
        pbind (case workAvailable m1 of None \<Rightarrow> Inr rt | Some a \<Rightarrow> close_chan a rt) (\<lambda>rt1.
          Inr (m1\<lparr>workAvailable := None\<rparr>, rt1)))"

text \<open>
  The loop \<^verbatim>\<open>for i := range m.c\<close> of \<^verbatim>\<open>init\<close>. The Boolean of the result says whether
  the loop ran to its end (\<open>True\<close>) or \<^verbatim>\<open>init\<close> returned from inside it, after
  \<^verbatim>\<open>initFail\<close>. The eight reads \<^verbatim>\<open>attrs[0]\<close> to \<^verbatim>\<open>attrs[7]\<close> panic when the driver hands
  back fewer than eight attributes. Log lines are not modelled.
\<close>

definition init_fail_return ::
  "('ctx, 'blas) registry \<Rightarrow> panic + (bool \<times> ('ctx, 'blas) registry)" where
  "init_fail_return s = pbind (initFail s) (\<lambda>s1. Inr (False, s1))"

fun init_loop ::
  "('ctx, 'blas) extern \<Rightarrow> nat list \<Rightarrow> ('ctx, 'blas) registry
     \<Rightarrow> panic + (bool \<times> ('ctx, 'blas) registry)" where
  "init_loop api [] s = Inr (True, s)"
| "init_loop api (i # is) s =
     (case GetDevice api (of_nat i) of
        Inl err \<Rightarrow> init_fail_return s
      | Inr dev \<Rightarrow>
          (case MakeContext api dev of
             Inl err \<Rightarrow>
               (if err = OutOfMemory
                then (case MemInfo api i of Inl err2 \<Rightarrow> init_fail_return s
                                          | Inr ft \<Rightarrow> init_fail_return s)
                else init_fail_return s)
           | Inr cx \<Rightarrow>
               (case Attributes api dev of
                  Inl err \<Rightarrow> init_fail_return s
                | Inr attrs \<Rightarrow>
                    if length attrs < 8 then Inl IndexOutOfRange
                    else
                      (case s of (m, rt) \<Rightarrow>
                         let m1 = m\<lparr>warp := (warp m)[i := attrs ! 0],
                                     mtpb := (mtpb m)[i := attrs ! 1],
                                     mgdx := (mgdx m)[i := attrs ! 2],
                                     mgdy := (mgdy m)[i := attrs ! 3],
                                     mgdz := (mgdz m)[i := attrs ! 4],
                                     mbdx := (mbdx m)[i := attrs ! 5],
                                     mbdy := (mbdy m)[i := attrs ! 6],
                                     mbdz := (mbdz m)[i := attrs ! 7]\<rparr>
                         in case MemInfo api i of
                              Inl err \<Rightarrow> init_fail_return (m1, rt)
                            | Inr ft \<Rightarrow>
                                (let m2 = m1\<lparr>freeMem := (freeMem m1)[i := fst ft],
                                              totalMem := (totalMem m1)[i := snd ft],
                                              arena := (arena m1)[i := Some Map.empty],
                                              md_c := (md_c m1)[i := Some (NewBatchedContext api cx dev)]\<rparr>;
                                     rt2 = rt\<lparr>relays := relays rt @ [i]\<rparr>
                                 in init_loop api is (m2, rt2))))))"

definition init :: "('ctx, 'blas) extern \<Rightarrow> ('ctx, 'blas) registry \<Rightarrow> panic + ('ctx, 'blas) registry" where
  "init api s =
     (case s of (m, rt) \<Rightarrow>
        if initialzed m then Inr (m, rt)
        else
          (case NumDevices api of
             Inl err \<Rightarrow> Inr (m, rt)
           | Inr devices \<Rightarrow>
               if devices = 0 then Inr (m, rt)
               else if sint devices < 0 then Inl MakeSliceLenOutOfRange
               else
                 (let k = nat (sint devices);
                      rt1 = rt\<lparr>chans := chans rt @ [False]\<rparr>;
                      m1 = m\<lparr>workAvailable := Some (length (chans rt)),
                              md_c := replicate k None,
                              hasWork := replicate k False,
                              warp := replicate k 0, mtpb := replicate k 0,
                              mgdx := replicate k 0, mgdy := replicate k 0, mgdz := replicate k 0,
                              mbdx := replicate k 0, mbdy := replicate k 0, mbdz := replicate k 0,
                              freeMem := replicate k 0, totalMem := replicate k 0,
                              arena := replicate k None\<rparr>
                  in pbind (init_loop api [0..<length (md_c m1)] (m1, rt1)) (\<lambda>(finished, m2, rt2).
                       if \<not> finished then Inr (m2, rt2)
                       else
                         pbind (if 0 < length (md_c m2)
                                then pbind (ctx_at m2 0) (\<lambda>cx.
                                       Inr (m2\<lparr>md_c := (md_c m2)[0 := Some (SetCurrent api cx)]\<rparr>))
                                else Inr m2) (\<lambda>m3.
                           Inr (m3\<lparr>md_m := Some Map.empty, md_f := Some Map.empty, initialzed := True\<rparr>,
                                rt2\<lparr>blas_relay := True\<rparr>))))))"

section \<open>The kernel-source registry: \<^verbatim>\<open>AddToStdLib\<close>\<close>

text \<open>
  \<^verbatim>\<open>var cudaStdLib map[string]string\<close> is a package variable: the state is the map, or
  \<open>None\<close> as long as nothing has allocated it. The file itself never allocates it (the
  generated kernel table of \<^verbatim>\<open>go:generate cudagen\<close> does).
\<close>

type_synonym cudaStdLib = "(string \<rightharpoonup> string) option"

definition AddToStdLib :: "cudaStdLib \<Rightarrow> string \<Rightarrow> string \<Rightarrow> panic + cudaStdLib" where
  "AddToStdLib lib name data =
     (case lib of None \<Rightarrow> Inl NilMapAssignment | Some mp \<Rightarrow> Inr (Some (mp(name \<mapsto> data))))"

section \<open>Observations and example registries\<close>

text \<open>The pool of a device and size class, and the blocks in it.\<close>

definition pool_of :: "('ctx, 'blas) ExternMetadata \<Rightarrow> Device \<Rightarrow> go_uint \<Rightarrow> memoryQueue option" where
  "pool_of m d sz =
     (case go_index (arena m) d of Inr (Some mp) \<Rightarrow> mp sz | _ \<Rightarrow> None)"

definition blocks_of :: "('ctx, 'blas) ExternMetadata \<Rightarrow> Device \<Rightarrow> go_uint \<Rightarrow> Memory list" where
  "blocks_of m d sz = (case pool_of m d sz of None \<Rightarrow> [] | Some pool \<Rightarrow> mq_blocks pool)"

text \<open>A registry of one device, as a successful \<^verbatim>\<open>init\<close> leaves it, and the same with an empty pool.\<close>

definition md_one :: "(nat, nat) ExternMetadata" where
  "md_one =
     \<lparr>warp = [32], mtpb = [1024], mgdx = [2147483647], mgdy = [65535], mgdz = [65535],
      mbdx = [1024], mbdy = [1024], mbdz = [64],
      freeMem = [4000000000], totalMem = [8000000000],
      arena = [Some Map.empty],
      md_b = None, md_c = [Some 0], hasWork = [False], workAvailable = Some 0,
      md_m = Some Map.empty, md_f = Some Map.empty,
      blasHasWork = False, initialzed = True\<rparr>"

definition md_pooled :: "(nat, nat) ExternMetadata" where
  "md_pooled = md_one\<lparr>arena := [Some [4096 \<mapsto> \<lparr>mq_size = 4096, mq_blocks = []\<rparr>]]\<rparr>"

text \<open>Device \<open>j\<close> has a context, and flushing it reports no error.\<close>

definition flush_ok :: "('ctx, 'blas) extern \<Rightarrow> ('ctx, 'blas) ExternMetadata \<Rightarrow> nat \<Rightarrow> bool" where
  "flush_ok api m j =
     (case ctx_at m j of Inl p \<Rightarrow> False | Inr cx \<Rightarrow> ctx_Errors api (ctx_DoWork api cx) = None)"

text \<open>Three devices with pending work and a pending BLAS flush; a context is the list of its
  queued calls, flushing empties it, and a context whose queue held the call 0 reports an error.\<close>

definition md_three :: "(nat list \<times> bool, nat) ExternMetadata" where
  "md_three =
     \<lparr>warp = [32, 32, 32], mtpb = [1024, 1024, 1024], mgdx = [65535, 65535, 65535],
      mgdy = [65535, 65535, 65535], mgdz = [65535, 65535, 65535],
      mbdx = [1024, 1024, 1024], mbdy = [1024, 1024, 1024], mbdz = [64, 64, 64],
      freeMem = [0, 0, 0], totalMem = [0, 0, 0],
      arena = [Some Map.empty, Some Map.empty, Some Map.empty],
      md_b = Some 5, md_c = [Some ([1], False), Some ([0], False), Some ([2], False)],
      hasWork = [True, True, True], workAvailable = Some 0,
      md_m = Some Map.empty, md_f = Some Map.empty,
      blasHasWork = True, initialzed = True\<rparr>"

definition api_queue :: "(nat list \<times> bool, nat) extern" where
  "api_queue =
     \<lparr>NumDevices = Inr 3, GetDevice = (\<lambda>i. Inr (unat i)), MakeContext = (\<lambda>d. Inr d),
      Attributes = (\<lambda>d. Inr [32, 1024, 65535, 65535, 65535, 1024, 1024, 64]),
      MemInfo = (\<lambda>i. Inr (0, 0)),
      NewBatchedContext = (\<lambda>cx d. ([], False)),
      SetCurrent = (\<lambda>cx. cx),
      ctx_DoWork = (\<lambda>cx. ([], 0 \<in> set (fst cx))),
      ctx_Errors = (\<lambda>cx. if snd cx then Some (OtherError 1) else None),
      blas_DoWork = (\<lambda>b. 0)\<rparr>"

text \<open>A small capability profile, and one whose thread limit is the largest \<^verbatim>\<open>int\<close>.\<close>

definition md_small :: "(nat, nat) ExternMetadata" where
  "md_small = md_one\<lparr>mtpb := [2], mgdx := [2], mgdy := [2], mgdz := [2]\<rparr>"

definition md_huge :: "(nat, nat) ExternMetadata" where
  "md_huge = md_one\<lparr>mtpb := [9223372036854775807], mgdx := [1], mgdy := [1], mgdz := [1]\<rparr>"

section \<open>Observations of the lifecycle\<close>

text \<open>
  What the driver answers while device \<open>i\<close> is set up, in the order \<^verbatim>\<open>init\<close> asks:
  every call succeeds; \<^verbatim>\<open>GetDevice\<close>, \<^verbatim>\<open>MakeContext\<close> or \<^verbatim>\<open>Attributes\<close> fails, before anything
  of the device is written; \<^verbatim>\<open>MemInfo\<close> fails, after the attributes have been written; or
  fewer than eight attributes come back and the read of \<^verbatim>\<open>attrs\<close> panics.
\<close>

datatype probe =
    ProbeOk cuDevice cuContext "go_int list" go_int64 go_int64
  | ProbeFailsEarly
  | ProbeFailsMemInfo "go_int list"
  | ProbePanics

definition probe :: "('ctx, 'blas) extern \<Rightarrow> nat \<Rightarrow> probe" where
  "probe api i =
     (case GetDevice api (of_nat i) of
        Inl err \<Rightarrow> ProbeFailsEarly
      | Inr dev \<Rightarrow>
          (case MakeContext api dev of
             Inl err \<Rightarrow> ProbeFailsEarly
           | Inr cx \<Rightarrow>
               (case Attributes api dev of
                  Inl err \<Rightarrow> ProbeFailsEarly
                | Inr attrs \<Rightarrow>
                    if length attrs < 8 then ProbePanics
                    else (case MemInfo api i of
                            Inl err \<Rightarrow> ProbeFailsMemInfo attrs
                          | Inr ft \<Rightarrow> ProbeOk dev cx attrs (fst ft) (snd ft)))))"

text \<open>The zero value of the struct, an empty run-time state, and a driver with two devices
  of which the second cannot be opened.\<close>

definition md_zero :: "(nat, nat) ExternMetadata" where
  "md_zero =
     \<lparr>warp = [], mtpb = [], mgdx = [], mgdy = [], mgdz = [], mbdx = [], mbdy = [], mbdz = [],
      freeMem = [], totalMem = [], arena = [],
      md_b = None, md_c = [], hasWork = [], workAvailable = None,
      md_m = None, md_f = None, blasHasWork = False, initialzed = False\<rparr>"

definition rt_zero :: runtime where
  "rt_zero = \<lparr>chans = [], relays = [], blas_relay = False\<rparr>"

definition api_two :: "(nat, nat) extern" where
  "api_two =
     \<lparr>NumDevices = Inr 2,
      GetDevice = (\<lambda>i. if i = 0 then Inr 0 else Inl (OtherError 101)),
      MakeContext = (\<lambda>d. Inr d),
      Attributes = (\<lambda>d. Inr [32, 1024, 2147483647, 65535, 65535, 1024, 1024, 64]),
      MemInfo = (\<lambda>i. Inr (4000000000, 8000000000)),
      NewBatchedContext = (\<lambda>cx d. d),
      SetCurrent = (\<lambda>cx. cx),
      ctx_DoWork = (\<lambda>cx. cx),
      ctx_Errors = (\<lambda>cx. None),
      blas_DoWork = (\<lambda>b. b)\<rparr>"

text \<open>The eight capability slices, and the entries of one device in them.\<close>

definition capability_profiles ::
  "('ctx, 'blas) ExternMetadata \<Rightarrow> go_int list list" where
  "capability_profiles m = [warp m, mtpb m, mgdx m, mgdy m, mgdz m, mbdx m, mbdy m, mbdz m]"

definition profile_of_attrs :: "go_int list \<Rightarrow> go_int list" where
  "profile_of_attrs attrs =
     [attrs ! 0, attrs ! 1, attrs ! 2, attrs ! 3, attrs ! 4, attrs ! 5, attrs ! 6, attrs ! 7]"

definition device_profile :: "('ctx, 'blas) ExternMetadata \<Rightarrow> nat \<Rightarrow> go_int list" where
  "device_profile m j =
     [warp m ! j, mtpb m ! j, mgdx m ! j, mgdy m ! j, mgdz m ! j, mbdx m ! j, mbdy m ! j, mbdz m ! j]"

definition slice_lengths :: "('ctx, 'blas) ExternMetadata \<Rightarrow> nat list" where
  "slice_lengths m =
     [length (warp m), length (mtpb m), length (mgdx m), length (mgdy m), length (mgdz m),
      length (mbdx m), length (mbdy m), length (mbdz m),
      length (freeMem m), length (totalMem m), length (arena m), length (hasWork m)]"

text \<open>The two groups of assignments in the body of the loop of \<^verbatim>\<open>init\<close>, as state
  transformers: the eight capability entries, and the whole set-up of a device whose
  probe succeeds.\<close>

definition write_attrs :: "nat \<Rightarrow> go_int list \<Rightarrow> ('ctx, 'blas) ExternMetadata \<Rightarrow> ('ctx, 'blas) ExternMetadata" where
  "write_attrs i attrs m =
     m\<lparr>warp := (warp m)[i := attrs ! 0], mtpb := (mtpb m)[i := attrs ! 1],
       mgdx := (mgdx m)[i := attrs ! 2], mgdy := (mgdy m)[i := attrs ! 3],
       mgdz := (mgdz m)[i := attrs ! 4], mbdx := (mbdx m)[i := attrs ! 5],
       mbdy := (mbdy m)[i := attrs ! 6], mbdz := (mbdz m)[i := attrs ! 7]\<rparr>"

definition setup_device ::
  "('ctx, 'blas) extern \<Rightarrow> ('ctx, 'blas) registry \<Rightarrow> nat \<Rightarrow> ('ctx, 'blas) registry" where
  "setup_device api s i =
     (case probe api i of
        ProbeOk dev cx attrs fr tot \<Rightarrow>
          (case s of (m, rt) \<Rightarrow>
             ((write_attrs i attrs m)
                \<lparr>freeMem := (freeMem m)[i := fr], totalMem := (totalMem m)[i := tot],
                 arena := (arena m)[i := Some Map.empty],
                 md_c := (md_c m)[i := Some (NewBatchedContext api cx dev)]\<rparr>,
              rt\<lparr>relays := relays rt @ [i]\<rparr>))
      | _ \<Rightarrow> s)"

definition probe_ok :: "('ctx, 'blas) extern \<Rightarrow> nat \<Rightarrow> bool" where
  "probe_ok api i = (case probe api i of ProbeOk dev cx attrs fr tot \<Rightarrow> True | _ \<Rightarrow> False)"

text \<open>What the registry holds for device \<open>j\<close>, and the fields no device owns.\<close>

definition device_state ::
  "('ctx, 'blas) ExternMetadata \<Rightarrow> nat
     \<Rightarrow> go_int list \<times> go_int64 \<times> go_int64 \<times> (go_uint \<rightharpoonup> memoryQueue) option" where
  "device_state m j = (device_profile m j, freeMem m ! j, totalMem m ! j, arena m ! j)"

definition shared_state ::
  "('ctx, 'blas) ExternMetadata
     \<Rightarrow> 'blas option \<times> bool list \<times> nat option \<times> (string \<rightharpoonup> nat list) option
         \<times> (string \<rightharpoonup> nat list) option \<times> bool \<times> bool" where
  "shared_state m = (md_b m, hasWork m, workAvailable m, md_m m, md_f m, blasHasWork m, initialzed m)"

text \<open>The registry after the allocations that open \<^verbatim>\<open>init\<close>, for \<open>n\<close> devices.\<close>

definition alloc_registry :: "nat \<Rightarrow> ('ctx, 'blas) registry \<Rightarrow> ('ctx, 'blas) registry" where
  "alloc_registry n s =
     (case s of (m, rt) \<Rightarrow>
        (m\<lparr>workAvailable := Some (length (chans rt)),
           md_c := replicate n None,
           hasWork := replicate n False,
           warp := replicate n 0, mtpb := replicate n 0,
           mgdx := replicate n 0, mgdy := replicate n 0, mgdz := replicate n 0,
           mbdx := replicate n 0, mbdy := replicate n 0, mbdz := replicate n 0,
           freeMem := replicate n 0, totalMem := replicate n 0,
           arena := replicate n None\<rparr>,
         rt\<lparr>chans := chans rt @ [False]\<rparr>))"

section \<open>The work-signal relays: \<^verbatim>\<open>collectWork\<close>\<close>

text \<open>
  \<^verbatim>\<open>init\<close> starts one goroutine \<^verbatim>\<open>collectWork(devID, source)\<close> per device. Its loop has
  three places: waiting in \<^verbatim>\<open>for range workAvailable\<close> for a signal of its source
  (\<open>AtRange\<close>), about to run \<^verbatim>\<open>m.hasWork[devID] = true\<close> (\<open>AtSet\<close>), and about to run the
  send \<^verbatim>\<open>m.workAvailable <- struct{}{}\<close> (\<open>AtSend\<close>). The goroutines are interleaved step by
  step: \<open>relay_step\<close> is one step of one of them. \<open>sources r ! i\<close> counts the signals the
  source of device \<open>i\<close> still delivers; the shared channel is unbuffered, so a send is
  one step together with the receive of the consumer, counted in \<open>received\<close>; a send on
  a \<^verbatim>\<open>nil\<close> channel never happens.
\<close>

datatype relay_pc = AtRange | AtSet | AtSend

record relays_state =
  sources :: "nat list"
  pcs :: "relay_pc list"
  received :: nat

type_synonym ('ctx, 'blas) hub = "('ctx, 'blas) ExternMetadata \<times> relays_state"

inductive relay_step :: "('ctx, 'blas) hub \<Rightarrow> ('ctx, 'blas) hub \<Rightarrow> bool" where
  recv: "i < length (pcs r) \<Longrightarrow> pcs r ! i = AtRange \<Longrightarrow> i < length (sources r) \<Longrightarrow> 0 < sources r ! i \<Longrightarrow>
     relay_step (m, r) (m, r\<lparr>sources := (sources r)[i := sources r ! i - 1], pcs := (pcs r)[i := AtSet]\<rparr>)"
| mark: "i < length (pcs r) \<Longrightarrow> pcs r ! i = AtSet \<Longrightarrow> i < length (hasWork m) \<Longrightarrow>
     relay_step (m, r) (m\<lparr>hasWork := (hasWork m)[i := True]\<rparr>, r\<lparr>pcs := (pcs r)[i := AtSend]\<rparr>)"
| send: "i < length (pcs r) \<Longrightarrow> pcs r ! i = AtSend \<Longrightarrow> workAvailable m \<noteq> None \<Longrightarrow>
     relay_step (m, r) (m, r\<lparr>pcs := (pcs r)[i := AtRange], received := Suc (received r)\<rparr>)"

text \<open>The relays between a receive and the matching send, the start with one signal per
  source, and the end where every signal has been forwarded.\<close>

definition in_flight :: "relay_pc list \<Rightarrow> nat" where
  "in_flight ps = sum_list (map (\<lambda>p. if p = AtRange then 0 else 1) ps)"

definition relays_start :: "nat \<Rightarrow> relays_state" where
  "relays_start n = \<lparr>sources = replicate n 1, pcs = replicate n AtRange, received = 0\<rparr>"

definition relays_done :: "relays_state \<Rightarrow> bool" where
  "relays_done r = (list_all (\<lambda>k. k = 0) (sources r) \<and> list_all (\<lambda>p. p = AtRange) (pcs r))"

text \<open>What every interleaving preserves.\<close>

definition hub_inv :: "nat \<Rightarrow> ('ctx, 'blas) hub \<Rightarrow> bool" where
  "hub_inv n s =
     (case s of (m, r) \<Rightarrow>
        length (sources r) = n \<and> length (pcs r) = n \<and> length (hasWork m) = n \<and>
        workAvailable m \<noteq> None \<and>
        received r + in_flight (pcs r) + sum_list (sources r) = n \<and>
        list_all (\<lambda>i. pcs r ! i = AtSend \<longrightarrow> hasWork m ! i) [0..<n])"

text \<open>A registry of two devices with an open channel.\<close>

definition hub_two :: "(nat, nat) ExternMetadata" where
  "hub_two = md_zero\<lparr>hasWork := [False, False], workAvailable := Some 0\<rparr>"

section \<open>Basic facts\<close>

lemma pbind_simps [simp]:
  "pbind (Inl p) k = Inl p" "pbind (Inr x) k = k x"
  by (simp_all add: pbind_def)

lemma arena_self_update: "arena m ! i = v \<Longrightarrow> m\<lparr>arena := (arena m)[i := v]\<rparr> = m"
proof -
  assume "arena m ! i = v"
  then have "(arena m)[i := v] = arena m" by auto
  then show ?thesis by simp
qed

section \<open>Ceiling division on machine integers\<close>

lemma ceil_div_ceiling: "ceil_div a b = \<lceil>real_of_int a / real_of_int b\<rceil>"
proof -
  have "\<lfloor>real_of_int (- a) / real_of_int b\<rfloor> = (- a) div b"
    by (rule floor_divide_of_int_eq)
  then show ?thesis
    unfolding ceil_div_def ceiling_def by simp
qed

lemma ceil_div_code:
  assumes b: "0 < b" shows "ceil_div a b = (a + b - 1) div b"
proof -
  define q where "q = (- a) div b"
  define r where "r = (- a) mod b"
  have r: "0 \<le> r" "r < b" using b by (simp_all add: r_def)
  have "- a = b * q + r" by (simp add: q_def r_def)
  then have "a + b - 1 = (b - 1 - r) + (- q) * b" by (simp add: algebra_simps)
  then have "(a + b - 1) div b = ((b - 1 - r) + (- q) * b) div b" by (rule arg_cong)
  also have "\<dots> = (b - 1 - r) div b + (- q)"
    using b by (subst div_mult_self1) auto
  also have "(b - 1 - r) div b = 0"
    using r b by (intro div_pos_pos_trivial) auto
  finally show ?thesis by (simp add: ceil_div_def q_def)
qed

lemma sint_word_of_int_small:
  assumes "- (2 ^ 63) \<le> k" "k < 2 ^ 63"
  shows "sint (word_of_int k :: go_int) = k"
  using assms by (simp add: sint_sbintrunc' signed_take_bit_int_eq_self)

lemma sint_mult_small:
  fixes a b :: go_int
  assumes "0 \<le> sint a" "0 \<le> sint b" "sint a * sint b < 2 ^ 63"
  shows "sint (a * b) = sint a * sint b"
proof -
  have e: "a * b = word_of_int (sint a * sint b)"
    by simp
  have "0 \<le> sint a * sint b"
    using assms(1,2) by (rule mult_nonneg_nonneg)
  then have "- (2 ^ 63) \<le> sint a * sint b"
    by (rule order_trans [rotated]) simp
  then have "sint (word_of_int (sint a * sint b) :: go_int) = sint a * sint b"
    using assms(3) by (rule sint_word_of_int_small)
  then show ?thesis
    by (simp only: e [symmetric])
qed

lemma sdiv_nonneg: "0 \<le> (a::int) \<Longrightarrow> 0 < b \<Longrightarrow> a sdiv b = a div b"
  by (simp add: signed_divide_int_def sgn_if)

lemma smod_nonneg: "0 \<le> (a::int) \<Longrightarrow> 0 < b \<Longrightarrow> a smod b = a mod b"
  by (auto simp add: signed_modulo_int_def sgn_if)

lemma sint_pos_nonzero: "1 \<le> sint (b :: go_int) \<Longrightarrow> b \<noteq> 0"
  by auto

lemma calcBlocks_sint:
  assumes "0 \<le> sint a" "1 \<le> sint b" "sint a + sint b - 1 < 2 ^ 63"
  shows "\<exists>w. calcBlocks a b = Inr w \<and> sint w = ceil_div (sint a) (sint b)"
proof -
  have s: "sint (a + b - 1) = sint a + sint b - 1"
  proof -
    have e: "a + b - 1 = word_of_int (sint a + sint b - 1)" by simp
    have "- (2 ^ 63) \<le> sint a + sint b - 1"
      using assms(1,2) by (rule_tac order_trans [of _ 0]) simp_all
    then have "sint (word_of_int (sint a + sint b - 1) :: go_int) = sint a + sint b - 1"
      using assms(3) by (rule sint_word_of_int_small)
    then show ?thesis by (simp only: e [symmetric])
  qed
  define q where "q = (sint a + sint b - 1) div sint b"
  have d0: "0 \<le> sint a + sint b - 1" using assms(1,2) by simp
  have b0: "0 < sint b" using assms(2) by simp
  have q0: "0 \<le> q"
    unfolding q_def using d0 b0 by (rule pos_imp_zdiv_nonneg_iff [THEN iffD2, rotated])
  have "q \<le> (sint a + sint b - 1) div 1"
    unfolding q_def using d0 _ assms(2) by (rule zdiv_mono2) simp
  then have "q \<le> sint a + sint b - 1" by simp
  then have q1: "q < 2 ^ 63" using assms(3) by (rule le_less_trans)
  have "sint (a + b - 1) sdiv sint b = q"
    unfolding s q_def using d0 b0 by (rule sdiv_nonneg)
  moreover have "calcBlocks a b = Inr (word_of_int (sint (a + b - 1) sdiv sint b))"
    using sint_pos_nonzero [OF assms(2)] by (simp add: calcBlocks_def go_div_def)
  ultimately have "calcBlocks a b = Inr (word_of_int q)" by (simp only:)
  moreover have "sint (word_of_int q :: go_int) = q"
  proof (rule sint_word_of_int_small)
    show "- (2 ^ 63) \<le> q" using q0 by (rule order_trans [rotated]) simp
    show "q < 2 ^ 63" by (rule q1)
  qed
  moreover have "q = ceil_div (sint a) (sint b)"
    unfolding q_def using b0 by (rule ceil_div_code [symmetric])
  ultimately show ?thesis by (intro exI [of _ "word_of_int q"]) (simp only: simp_thms)
qed

lemma go_mod_sint:
  assumes "0 \<le> sint a" "1 \<le> sint b"
  shows "\<exists>w. go_mod a b = Inr w \<and> sint w = sint a mod sint b"
proof -
  define r where "r = sint a mod sint b"
  have r: "0 \<le> r" "r < sint b" using assms by (simp_all add: r_def)
  have "sint b < 2 ^ 63" using sint_lt [of b] by simp
  then have "sint (word_of_int r :: go_int) = r"
    using r by (intro sint_word_of_int_small) auto
  moreover have "go_mod a b = Inr (word_of_int r)"
    using assms sint_pos_nonzero [OF assms(2)] by (simp add: go_mod_def smod_nonneg r_def)
  ultimately show ?thesis by (simp add: r_def)
qed

lemma prod_bounds:
  fixes X Y Z :: int
  assumes "1 \<le> X" "1 \<le> Y" "1 \<le> Z"
  shows "X * Y \<le> X * Y * Z" and "1 \<le> X * Y" and "X + Y - 1 \<le> X * Y"
proof -
  show xy: "1 \<le> X * Y" using assms(1,2) by (metis mult_mono mult_1 zero_le_one order_trans)
  have "X * Y * 1 \<le> X * Y * Z" using xy assms(3) by (intro mult_left_mono) auto
  then show "X * Y \<le> X * Y * Z" by simp
  have "0 \<le> (X - 1) * (Y - 1)" using assms(1,2) by (intro mult_nonneg_nonneg) auto
  then show "X + Y - 1 \<le> X * Y" by (simp add: algebra_simps)
qed

text \<open>On a profile without overflow the code computes the geometry of the spec.\<close>

lemma ElemGridSize_ints:
  assumes idx: "go_index (mtpb md) dev = Inr mt" "go_index (mgdx md) dev = Inr gx"
      "go_index (mgdy md) dev = Inr gy" "go_index (mgdz md) dev = Inr gz"
    and pos: "1 \<le> sint n" "1 \<le> sint mt" "1 \<le> sint gx" "1 \<le> sint gy" "1 \<le> sint gz"
    and fit: "sint n + sint mt - 1 < 2 ^ 63" "sint gx * sint gy * sint gz < 2 ^ 63"
  shows "\<exists>g. ElemGridSize md n dev = Inr g \<and>
           geom_ints g = spec_ElemGridSize (sint n) (sint mt) (sint gx) (sint gy) (sint gz)"
proof -
  define N T X Y Z where "N = sint n" and "T = sint mt" and "X = sint gx" and "Y = sint gy" and "Z = sint gz"
  note defs = N_def T_def X_def Y_def Z_def
  have XY: "X * Y \<le> X * Y * Z" "1 \<le> X * Y" "X + Y - 1 \<le> X * Y"
    using prod_bounds [of X Y Z] pos by (simp_all add: defs)
  have XYZ: "X * Y + Z - 1 \<le> X * Y * Z"
    using prod_bounds(3) [of "X * Y" Z 1] XY(2) pos by (simp add: defs)
  have fitXY: "X * Y < 2 ^ 63" using XY(1) fit(2) by (simp add: defs)
  have sxy: "sint (gx * gy) = X * Y"
    unfolding defs using pos fitXY by (intro sint_mult_small) (simp_all add: defs)
  have sxyz: "sint (gx * gy * gz) = X * Y * Z"
  proof -
    have "sint (gx * gy * gz) = sint (gx * gy) * sint gz"
      using pos XY(2) fit(2) by (intro sint_mult_small) (simp_all add: sxy defs)
    then show ?thesis by (simp add: sxy defs)
  qed
  obtain blocks where bl: "calcBlocks n mt = Inr blocks" "sint blocks = ceil_div N T"
    using calcBlocks_sint [of n mt] pos fit(1) by (auto simp add: defs)
  define B where "B = ceil_div N T"
  have B0: "0 \<le> B"
    using pos by (simp add: B_def defs ceil_div_code pos_imp_zdiv_nonneg_iff)
  have b1: "blocks = 1 \<longleftrightarrow> B = 1"
    using bl(2) by (simp add: word_eq_iff_signed [where 'a = int] B_def)
  have head: "ElemGridSize md n dev =
       (if blocks = 1 then Inr (1, 1, 1, n, 1, 1)
        else if go_ge blocks (gx * gy * gz) then Inr (1, 1, 1, 1, 1, 1)
        else if go_ge blocks (gx * gy) then
          pbind (go_mod blocks (gx * gy)) (\<lambda>r.
          pbind (calcBlocks r gz) (\<lambda>gridDimZ. Inr (gx, gy, gridDimZ, mt, 1, 1)))
        else if go_ge blocks gx then
          pbind (go_mod blocks gx) (\<lambda>r.
          pbind (calcBlocks r gy) (\<lambda>gridDimY. Inr (gx, gridDimY, 1, mt, 1, 1)))
        else Inr (blocks, 1, 1, mt, 1, 1))"
    by (simp add: ElemGridSize_def idx bl(1))
  have spec: "spec_ElemGridSize N T X Y Z =
      (if B = 1 then (1, 1, 1, N, 1, 1)
       else if B \<ge> X * Y * Z then (1, 1, 1, 1, 1, 1)
       else if B \<ge> X * Y then (X, Y, ceil_div (B mod (X * Y)) Z, T, 1, 1)
       else if B \<ge> X then (X, ceil_div (B mod X) Y, 1, T, 1, 1)
       else (B, 1, 1, T, 1, 1))"
    by (simp add: spec_ElemGridSize_def B_def Let_def)
  have ge1: "go_ge blocks (gx * gy * gz) \<longleftrightarrow> X * Y * Z \<le> B"
    by (simp add: go_ge_def sxyz bl(2) B_def)
  have ge2: "go_ge blocks (gx * gy) \<longleftrightarrow> X * Y \<le> B"
    by (simp add: go_ge_def sxy bl(2) B_def)
  have ge3: "go_ge blocks gx \<longleftrightarrow> X \<le> B"
    by (simp add: go_ge_def bl(2) B_def defs)
  consider (one) "B = 1" | (sat) "B \<noteq> 1" "X * Y * Z \<le> B"
    | (xy) "B \<noteq> 1" "\<not> X * Y * Z \<le> B" "X * Y \<le> B"
    | (x) "B \<noteq> 1" "\<not> X * Y * Z \<le> B" "\<not> X * Y \<le> B" "X \<le> B"
    | (dflt) "B \<noteq> 1" "\<not> X * Y * Z \<le> B" "\<not> X * Y \<le> B" "\<not> X \<le> B"
    by blast
  then show ?thesis
  proof cases
    case one
    then show ?thesis
      unfolding head spec defs [symmetric] by (simp add: b1 geom_ints_def defs)
  next
    case sat
    then show ?thesis
      unfolding head spec defs [symmetric] by (simp add: b1 ge1 geom_ints_def)
  next
    case xy
    have sb: "0 \<le> sint blocks" using B0 bl(2) by (simp add: B_def)
    obtain r where r: "go_mod blocks (gx * gy) = Inr r" "sint r = B mod (X * Y)"
      using go_mod_sint [of blocks "gx * gy"] sb XY(2) by (auto simp add: sxy bl(2) B_def)
    have r0: "0 \<le> sint r" "sint r < X * Y" using XY(2) by (simp_all add: r(2))
    have "sint r + sint gz - 1 < X * Y + Z - 1" using r0 by (simp add: defs)
    also have "\<dots> \<le> X * Y * Z" by (rule XYZ)
    also have "\<dots> < 2 ^ 63" using fit(2) by (simp add: defs)
    finally have "sint r + sint gz - 1 < 2 ^ 63" .
    then obtain w where w: "calcBlocks r gz = Inr w" "sint w = ceil_div (sint r) Z"
      using calcBlocks_sint [of r gz] r0(1) pos by (auto simp add: defs)
    show ?thesis
      unfolding head spec defs [symmetric] using xy
      by (simp add: b1 ge1 ge2 r w geom_ints_def defs)
  next
    case x
    have sb: "0 \<le> sint blocks" using B0 bl(2) by (simp add: B_def)
    obtain r where r: "go_mod blocks gx = Inr r" "sint r = B mod X"
      using go_mod_sint [of blocks gx] sb pos by (auto simp add: bl(2) B_def defs)
    have r0: "0 \<le> sint r" "sint r < X" using pos by (simp_all add: r(2) defs)
    have "sint r + sint gy - 1 < X + Y - 1" using r0 by (simp add: defs)
    also have "\<dots> \<le> X * Y" by (rule XY(3))
    also have "\<dots> < 2 ^ 63" by (rule fitXY)
    finally have "sint r + sint gy - 1 < 2 ^ 63" .
    then obtain w where w: "calcBlocks r gy = Inr w" "sint w = ceil_div (sint r) Y"
      using calcBlocks_sint [of r gy] r0(1) pos by (auto simp add: defs)
    show ?thesis
      unfolding head spec defs [symmetric] using x
      by (simp add: b1 ge1 ge2 ge3 r w geom_ints_def defs)
  next
    case dflt
    then show ?thesis
      unfolding head spec defs [symmetric]
      by (simp add: b1 ge1 ge2 ge3 geom_ints_def bl(2) B_def defs)
  qed
qed

section \<open>The launch geometry against the spec\<close>

lemma ceil_div_one:
  assumes "1 \<le> N" "N \<le> T"
  shows "ceil_div N T = 1"
proof -
  have T: "0 < T" using assms by simp
  have "(N + T - 1) div T = ((N - 1) + 1 * T) div T" by (simp add: algebra_simps)
  also have "\<dots> = (N - 1) div T + 1" using T by (subst div_mult_self1) simp_all
  also have "(N - 1) div T = 0" using assms by (intro div_pos_pos_trivial) simp_all
  finally show ?thesis using T by (simp add: ceil_div_code)
qed

lemma ceil_div_covers:
  assumes "0 < T"
  shows "N \<le> ceil_div N T * T"
proof -
  have "N + T - 1 = (N + T - 1) div T * T + (N + T - 1) mod T" by simp
  moreover have "(N + T - 1) mod T \<le> T - 1" using assms pos_mod_bound [of T "N + T - 1"] by simp
  ultimately have "N + T - 1 \<le> (N + T - 1) div T * T + (T - 1)" by linarith
  then show ?thesis using assms by (simp add: ceil_div_code)
qed

lemma ceil_div_one_le:
  assumes "0 < T" "ceil_div N T = 1"
  shows "N \<le> T"
  using ceil_div_covers [OF assms(1), of N] assms(2) by simp

text \<open>
  C3. The claim is that \<^verbatim>\<open>ElemGridSize\<close> computes \<open>blocks\<close> as the ceiling of
  \<open>n / maxThreadsPerBlock\<close> and follows the five cases of the spec, so that every
  \<open>1 \<le> n \<le> maxThreadsPerBlock\<close> gives \<open>(1, 1, 1, n, 1, 1)\<close>. As stated, for every \<open>n\<close>
  and profile, it fails where the machine arithmetic wraps around (the counterexample
  below). What holds: for a device of the registry, \<open>n \<ge> 1\<close> and
  \<open>maxThreadsPerBlock \<ge> 1\<close> with \<open>n + maxThreadsPerBlock - 1\<close> within the range of
  \<^verbatim>\<open>int\<close>, every \<open>n \<le> maxThreadsPerBlock\<close> gives \<open>(1, 1, 1, n, 1, 1)\<close>; and when the three
  grid limits are at least 1 and their product is within the range of \<^verbatim>\<open>int\<close>, the result
  is the tuple of the spec's five cases, computed on mathematical integers.
\<close>

theorem ElemGridSize_refines_spec:
  assumes idx: "go_index (mtpb md) dev = Inr mt" "go_index (mgdx md) dev = Inr gx"
      "go_index (mgdy md) dev = Inr gy" "go_index (mgdz md) dev = Inr gz"
    and pos: "1 \<le> sint n" "1 \<le> sint mt"
    and fit: "sint n + sint mt - 1 < 2 ^ 63"
  shows "(1 \<le> sint gx \<and> 1 \<le> sint gy \<and> 1 \<le> sint gz \<and> sint gx * sint gy * sint gz < 2 ^ 63 \<longrightarrow>
           (\<exists>g. ElemGridSize md n dev = Inr g \<and>
              geom_ints g = spec_ElemGridSize (sint n) (sint mt) (sint gx) (sint gy) (sint gz))) \<and>
         (sint n \<le> sint mt \<longrightarrow> ElemGridSize md n dev = Inr (1, 1, 1, n, 1, 1))"
proof (intro conjI impI)
  assume "1 \<le> sint gx \<and> 1 \<le> sint gy \<and> 1 \<le> sint gz \<and> sint gx * sint gy * sint gz < 2 ^ 63"
  then show "\<exists>g. ElemGridSize md n dev = Inr g \<and>
              geom_ints g = spec_ElemGridSize (sint n) (sint mt) (sint gx) (sint gy) (sint gz)"
    using ElemGridSize_ints [OF idx pos _ _ _ fit] by blast
next
  assume le: "sint n \<le> sint mt"
  obtain blocks where bl: "calcBlocks n mt = Inr blocks" "sint blocks = ceil_div (sint n) (sint mt)"
    using calcBlocks_sint [of n mt] pos fit by auto
  have "sint blocks = 1" using ceil_div_one [OF pos(1) le] bl(2) by simp
  then have "blocks = 1" by (simp add: word_eq_iff_signed [where 'a = int])
  then show "ElemGridSize md n dev = Inr (1, 1, 1, n, 1, 1)"
    by (simp add: ElemGridSize_def idx bl(1))
qed

theorem ElemGridSize_refines_spec_witness:
  "go_index (mtpb md_one) 0 = Inr 1024 \<and> go_index (mgdx md_one) 0 = Inr 2147483647 \<and>
   go_index (mgdy md_one) 0 = Inr 65535 \<and> go_index (mgdz md_one) 0 = Inr 65535 \<and>
   1 \<le> sint (3000 :: go_int) \<and> sint (3000 :: go_int) + sint (1024 :: go_int) - 1 < 2 ^ 63 \<and>
   sint (2147483647 :: go_int) * sint (65535 :: go_int) * sint (65535 :: go_int) < 2 ^ 63 \<and>
   spec_ElemGridSize 3000 1024 2147483647 65535 65535 = (3, 1, 1, 1024, 1, 1) \<and>
   (\<exists>g. ElemGridSize md_one 3000 0 = Inr g \<and> geom_ints g = (3, 1, 1, 1024, 1, 1)) \<and>
   1 \<le> sint (300 :: go_int) \<and> sint (300 :: go_int) \<le> sint (1024 :: go_int) \<and>
   ElemGridSize md_one 300 0 = Inr (1, 1, 1, 300, 1, 1)"
proof -
  have idx: "go_index (mtpb md_one) 0 = Inr 1024" "go_index (mgdx md_one) 0 = Inr 2147483647"
    "go_index (mgdy md_one) 0 = Inr 65535" "go_index (mgdz md_one) 0 = Inr 65535"
    by (simp_all add: md_one_def go_index_def)
  have pos: "1 \<le> sint (3000 :: go_int)" "1 \<le> sint (1024 :: go_int)" by simp_all
  have fit: "sint (3000 :: go_int) + sint (1024 :: go_int) - 1 < 2 ^ 63" by simp
  have grid: "1 \<le> sint (2147483647 :: go_int) \<and> 1 \<le> sint (65535 :: go_int) \<and> 1 \<le> sint (65535 :: go_int) \<and>
      sint (2147483647 :: go_int) * sint (65535 :: go_int) * sint (65535 :: go_int) < 2 ^ 63"
    by simp
  have sp: "spec_ElemGridSize 3000 1024 2147483647 65535 65535 = (3, 1, 1, 1024, 1, 1)"
    by (simp add: spec_ElemGridSize_def ceil_div_def Let_def)
  from ElemGridSize_refines_spec [OF idx pos fit] grid
  have "\<exists>g. ElemGridSize md_one 3000 0 = Inr g \<and>
      geom_ints g = spec_ElemGridSize (sint (3000 :: go_int)) (sint (1024 :: go_int))
        (sint (2147483647 :: go_int)) (sint (65535 :: go_int)) (sint (65535 :: go_int))"
    by blast
  then have a: "\<exists>g. ElemGridSize md_one 3000 0 = Inr g \<and> geom_ints g = (3, 1, 1, 1024, 1, 1)"
    using sp by simp
  have pos': "1 \<le> sint (300 :: go_int)" and fit': "sint (300 :: go_int) + sint (1024 :: go_int) - 1 < 2 ^ 63"
    and le: "sint (300 :: go_int) \<le> sint (1024 :: go_int)"
    by simp_all
  from ElemGridSize_refines_spec [OF idx pos' pos(2) fit'] le
  have b: "ElemGridSize md_one 300 0 = Inr (1, 1, 1, 300, 1, 1)" by blast
  show ?thesis using idx pos(1) fit grid sp a pos' le b by simp
qed

text \<open>
  The counterexample to C3 as stated: with \<open>maxThreadsPerBlock = n = 2^63 - 1\<close> the sum
  \<open>n + maxThreadsPerBlock - 1\<close> wraps around to \<open>- 3\<close>, \<open>blocks\<close> is 0 and the last case
  answers \<open>gridDimX = 0\<close>, where the spec's cases give \<open>(1, 1, 1, n, 1, 1)\<close>.
\<close>

theorem ElemGridSize_overflow_counterexample:
  "go_index (mtpb md_huge) 0 = Inr 9223372036854775807 \<and>
   1 \<le> sint (9223372036854775807 :: go_int) \<and>
   sint (9223372036854775807 :: go_int) \<le> sint (9223372036854775807 :: go_int) \<and>
   ElemGridSize md_huge 9223372036854775807 0 = Inr (0, 1, 1, 9223372036854775807, 1, 1) \<and>
   spec_ElemGridSize 9223372036854775807 9223372036854775807 1 1 1
     = (1, 1, 1, 9223372036854775807, 1, 1)"
  by (simp add: md_huge_def md_one_def ElemGridSize_def go_index_def calcBlocks_def go_div_def
      go_ge_def go_mod_def signed_divide_int_def spec_ElemGridSize_def ceil_div_def Let_def)

lemma spec_ElemGridSize_bounds:
  assumes pos: "1 \<le> N" "1 \<le> T" "1 \<le> X" "1 \<le> Y" "1 \<le> Z"
    and g: "spec_ElemGridSize N T X Y Z = (a, b, c, d, e, f)"
  shows "a \<le> X \<and> d \<le> T \<and> e = 1 \<and> f = 1 \<and>
         (ceil_div N T = 1 \<or> ceil_div N T < X \<longrightarrow> N \<le> a * b * c * d * e * f \<and> b \<le> Y \<and> c \<le> Z) \<and>
         (ceil_div N T \<noteq> 1 \<and> X * Y * Z \<le> ceil_div N T \<longrightarrow> (a, b, c, d, e, f) = (1, 1, 1, 1, 1, 1))"
proof -
  define B where "B = ceil_div N T"
  have T: "0 < T" using pos by simp
  have XY: "X * Y \<le> X * Y * Z" "1 \<le> X * Y" using prod_bounds [OF pos(3,4,5)] by simp_all
  have XXY: "X \<le> X * Y" using pos(3,4) mult_left_mono [of 1 Y X] by simp
  have spec: "(a, b, c, d, e, f) =
      (if B = 1 then (1, 1, 1, N, 1, 1)
       else if B \<ge> X * Y * Z then (1, 1, 1, 1, 1, 1)
       else if B \<ge> X * Y then (X, Y, ceil_div (B mod (X * Y)) Z, T, 1, 1)
       else if B \<ge> X then (X, ceil_div (B mod X) Y, 1, T, 1, 1)
       else (B, 1, 1, T, 1, 1))"
    unfolding B_def using g [unfolded spec_ElemGridSize_def Let_def] by (rule sym)
  consider (one) "B = 1" | (sat) "B \<noteq> 1" "X * Y * Z \<le> B"
    | (xy) "B \<noteq> 1" "\<not> X * Y * Z \<le> B" "X * Y \<le> B"
    | (x) "B \<noteq> 1" "\<not> X * Y * Z \<le> B" "\<not> X * Y \<le> B" "X \<le> B"
    | (dflt) "B \<noteq> 1" "\<not> X * Y * Z \<le> B" "\<not> X * Y \<le> B" "\<not> X \<le> B"
    by blast
  then show ?thesis
  proof cases
    case one
    then have "N \<le> T" using ceil_div_one_le [OF T] by (simp add: B_def)
    then show ?thesis using spec one pos by (simp add: B_def)
  next
    case sat
    have "X \<le> B" using XXY XY(1) sat(2) by linarith
    then show ?thesis using spec sat pos by (simp add: B_def)
  next
    case xy
    then have "X \<le> B" using XXY by simp
    then show ?thesis using spec xy pos by (simp add: B_def)
  next
    case x
    then show ?thesis using spec pos by (simp add: B_def)
  next
    case dflt
    have "N \<le> B * T" unfolding B_def by (rule ceil_div_covers [OF T])
    then show ?thesis using spec dflt pos by (simp add: B_def)
  qed
qed

text \<open>
  C1. The claim is that for every \<open>n \<ge> 1\<close> and every profile with limits at least 1
  the tuple covers \<open>n\<close> (the product of its six entries is at least \<open>n\<close>) with every
  entry within its maximum. It fails in the case the code answers by its default tuple
  (the counterexample below). What holds, for \<open>n \<ge> 1\<close>, limits at least 1, and
  \<open>n + maxThreadsPerBlock - 1\<close> and \<open>maxGridX * maxGridY * maxGridZ\<close> within the range
  of \<^verbatim>\<open>int\<close>: the call returns a tuple with \<open>gridDimX \<le> maxGridX\<close>,
  \<open>blockDimX \<le> maxThreadsPerBlock\<close> and \<open>blockDimY = blockDimZ = 1\<close>; when \<open>blocks\<close>, the
  ceiling of \<open>n / maxThreadsPerBlock\<close>, is 1 or below \<open>maxGridX\<close>, the tuple covers \<open>n\<close>
  and \<open>gridDimY\<close> and \<open>gridDimZ\<close> are within their maxima; when \<open>blocks\<close> is not 1 and at
  least \<open>maxGridX * maxGridY * maxGridZ\<close>, the tuple is \<open>(1, 1, 1, 1, 1, 1)\<close>.
\<close>

theorem ElemGridSize_geometry:
  assumes idx: "go_index (mtpb md) dev = Inr mt" "go_index (mgdx md) dev = Inr gx"
      "go_index (mgdy md) dev = Inr gy" "go_index (mgdz md) dev = Inr gz"
    and pos: "1 \<le> sint n" "1 \<le> sint mt" "1 \<le> sint gx" "1 \<le> sint gy" "1 \<le> sint gz"
    and fit: "sint n + sint mt - 1 < 2 ^ 63" "sint gx * sint gy * sint gz < 2 ^ 63"
  shows "\<exists>gridDimX gridDimY gridDimZ blockDimX blockDimY blockDimZ.
           ElemGridSize md n dev = Inr (gridDimX, gridDimY, gridDimZ, blockDimX, blockDimY, blockDimZ) \<and>
           sint gridDimX \<le> sint gx \<and> sint blockDimX \<le> sint mt \<and> blockDimY = 1 \<and> blockDimZ = 1 \<and>
           (ceil_div (sint n) (sint mt) = 1 \<or> ceil_div (sint n) (sint mt) < sint gx \<longrightarrow>
              sint n \<le> volume (gridDimX, gridDimY, gridDimZ, blockDimX, blockDimY, blockDimZ) \<and>
              sint gridDimY \<le> sint gy \<and> sint gridDimZ \<le> sint gz) \<and>
           (ceil_div (sint n) (sint mt) \<noteq> 1 \<and>
            sint gx * sint gy * sint gz \<le> ceil_div (sint n) (sint mt) \<longrightarrow>
              (gridDimX, gridDimY, gridDimZ, blockDimX, blockDimY, blockDimZ) = (1, 1, 1, 1, 1, 1))"
proof -
  obtain g where g: "ElemGridSize md n dev = Inr g"
      "geom_ints g = spec_ElemGridSize (sint n) (sint mt) (sint gx) (sint gy) (sint gz)"
    using ElemGridSize_ints [OF idx pos fit] by blast
  obtain a b c d e f where gt: "g = (a, b, c, d, e, f)" by (cases g) auto
  have sp: "spec_ElemGridSize (sint n) (sint mt) (sint gx) (sint gy) (sint gz)
      = (sint a, sint b, sint c, sint d, sint e, sint f)"
    using g(2) by (simp add: gt geom_ints_def)
  note bd = spec_ElemGridSize_bounds [OF pos sp]
  have one: "w = 1 \<longleftrightarrow> sint w = 1" for w :: go_int
    by (simp add: word_eq_iff_signed [where 'a = int])
  have b1: "sint a \<le> sint gx" "sint d \<le> sint mt" "e = 1" "f = 1"
    using bd by (simp_all only: one)
  have b2: "ceil_div (sint n) (sint mt) = 1 \<or> ceil_div (sint n) (sint mt) < sint gx \<longrightarrow>
      sint n \<le> volume (a, b, c, d, e, f) \<and> sint b \<le> sint gy \<and> sint c \<le> sint gz"
    using bd unfolding volume_def prod.case by (rule_tac conjunct1 [OF conjunct2 [OF conjunct2 [OF conjunct2 [OF conjunct2]]]])
  have "ceil_div (sint n) (sint mt) \<noteq> 1 \<and> sint gx * sint gy * sint gz \<le> ceil_div (sint n) (sint mt) \<longrightarrow>
      (sint a, sint b, sint c, sint d, sint e, sint f) = (1, 1, 1, 1, 1, 1)"
    using bd by (rule_tac conjunct2 [OF conjunct2 [OF conjunct2 [OF conjunct2 [OF conjunct2]]]])
  then have b3: "ceil_div (sint n) (sint mt) \<noteq> 1 \<and> sint gx * sint gy * sint gz \<le> ceil_div (sint n) (sint mt) \<longrightarrow>
      (a, b, c, d, e, f) = (1, 1, 1, 1, 1, 1)"
    by (simp only: one prod.inject)
  show ?thesis
    using g(1) b1 b2 b3 unfolding gt by blast
qed

theorem ElemGridSize_geometry_witness:
  "go_index (mtpb md_one) 0 = Inr 1024 \<and> go_index (mgdx md_one) 0 = Inr 2147483647 \<and>
   go_index (mgdy md_one) 0 = Inr 65535 \<and> go_index (mgdz md_one) 0 = Inr 65535 \<and>
   1 \<le> sint (3000 :: go_int) \<and> sint (3000 :: go_int) + sint (1024 :: go_int) - 1 < 2 ^ 63 \<and>
   sint (2147483647 :: go_int) * sint (65535 :: go_int) * sint (65535 :: go_int) < 2 ^ 63 \<and>
   ceil_div (sint (3000 :: go_int)) (sint (1024 :: go_int)) < sint (2147483647 :: go_int) \<and>
   (\<exists>g. ElemGridSize md_one 3000 0 = Inr g \<and> sint (3000 :: go_int) \<le> volume g)"
proof -
  have idx: "go_index (mtpb md_one) 0 = Inr 1024" "go_index (mgdx md_one) 0 = Inr 2147483647"
    "go_index (mgdy md_one) 0 = Inr 65535" "go_index (mgdz md_one) 0 = Inr 65535"
    by (simp_all add: md_one_def go_index_def)
  have pos: "1 \<le> sint (3000 :: go_int)" "1 \<le> sint (1024 :: go_int)"
    "1 \<le> sint (2147483647 :: go_int)" "1 \<le> sint (65535 :: go_int)" "1 \<le> sint (65535 :: go_int)"
    by simp_all
  have fit: "sint (3000 :: go_int) + sint (1024 :: go_int) - 1 < 2 ^ 63"
    "sint (2147483647 :: go_int) * sint (65535 :: go_int) * sint (65535 :: go_int) < 2 ^ 63"
    by simp_all
  have c: "ceil_div (sint (3000 :: go_int)) (sint (1024 :: go_int)) < sint (2147483647 :: go_int)"
    by (simp add: ceil_div_def)
  from ElemGridSize_geometry [OF idx pos fit] c
  have "\<exists>g. ElemGridSize md_one 3000 0 = Inr g \<and> sint (3000 :: go_int) \<le> volume g"
    by blast
  then show ?thesis using idx pos fit c by blast
qed

text \<open>
  The counterexample to C1 as stated: limits all 2 and \<open>n = 100\<close> give \<open>blocks = 50\<close>,
  beyond the \<open>2 * 2 * 2\<close> blocks of the grid, and the tuple of all ones covers one item.
\<close>

theorem ElemGridSize_saturated_counterexample:
  "go_index (mtpb md_small) 0 = Inr 2 \<and> go_index (mgdx md_small) 0 = Inr 2 \<and>
   go_index (mgdy md_small) 0 = Inr 2 \<and> go_index (mgdz md_small) 0 = Inr 2 \<and>
   1 \<le> sint (100 :: go_int) \<and>
   ElemGridSize md_small 100 0 = Inr (1, 1, 1, 1, 1, 1) \<and>
   volume (1, 1, 1, 1, 1, 1) < sint (100 :: go_int)"
  by (simp add: md_small_def md_one_def ElemGridSize_def go_index_def calcBlocks_def go_div_def
      go_ge_def go_mod_def signed_divide_int_def volume_def)

text \<open>
  The two cases in between take the remainder \<open>blocks mod maxGridX\<close> (or
  \<open>blocks mod (maxGridX * maxGridY)\<close>) for the next dimension: with limits all 2 and
  \<open>n = 4\<close> that dimension is 0.
\<close>

lemma ElemGridSize_full_row_example:
  "ElemGridSize md_small 4 0 = Inr (2, 0, 1, 2, 1, 1)"
  by (simp add: md_small_def md_one_def ElemGridSize_def go_index_def calcBlocks_def go_div_def
      go_ge_def go_mod_def signed_divide_int_def signed_modulo_int_def)

section \<open>The capability lookup of \<^verbatim>\<open>ElemGridSize\<close> on a device that does not exist\<close>

text \<open>
  C4. The claim is that \<^verbatim>\<open>ElemGridSize(n, dev)\<close> with \<open>dev\<close> out of range is a safe
  no-op. The code does not do that: its guard \<^verbatim>\<open>if dev > len(md.warp)\<close> has an empty
  body, so for every device identifier from \<^verbatim>\<open>len(md.mtpb)\<close> on the read
  \<^verbatim>\<open>md.mtpb[dev]\<close> panics with an index out of range, whatever \<open>n\<close> is.
\<close>

theorem ElemGridSize_out_of_range:
  "int (length (mtpb md)) \<le> sint dev \<Longrightarrow> ElemGridSize md n dev = Inl IndexOutOfRange"
  by (simp add: ElemGridSize_def go_index_def)

theorem ElemGridSize_out_of_range_witness:
  "int (length (mtpb md_one)) \<le> sint (1 :: go_int) \<and> ElemGridSize md_one 300 1 = Inl IndexOutOfRange"
  using ElemGridSize_out_of_range [of md_one 1 300] by (simp add: md_one_def)

section \<open>The arena outside its range and on unused size classes\<close>

text \<open>
  C10. The guard of \<^verbatim>\<open>Get\<close> and \<^verbatim>\<open>Put\<close> is \<^verbatim>\<open>d >= len(m.arena)\<close> only: for every
  negative device identifier, on a registry with at least one device, both go on to
  \<^verbatim>\<open>m.arena[d]\<close> with the negative index and panic with an index out of range.
\<close>

theorem arena_negative_device:
  assumes "sint dev < 0" and "1 \<le> length (arena m)"
  shows "Get policy m dev sz = Inl IndexOutOfRange \<and> Put m dev mem sz = Inl IndexOutOfRange"
  using assms by (simp add: Get_def Put_def go_index_def)

theorem arena_negative_device_witness:
  "sint (- 1 :: go_int) < 0 \<and> 1 \<le> length (arena md_one) \<and>
   Get (\<lambda>bs. 0) md_one (- 1) 4096 = Inl IndexOutOfRange \<and>
   Put md_one (- 1) 7 4096 = Inl IndexOutOfRange"
  using arena_negative_device [of "- 1" md_one "\<lambda>bs. 0" 4096 7] by (simp add: md_one_def)



section \<open>Returning a block and getting it back\<close>

lemma go_index_Inr: "go_index xs i = Inr v \<longleftrightarrow> 0 \<le> sint i \<and> sint i < int (length xs) \<and> xs ! nat (sint i) = v"
  by (auto simp add: go_index_def split: if_splits)

lemma go_index_update_same:
  "go_index xs i = Inr v \<Longrightarrow> go_index (xs[nat (sint i) := w]) i = Inr w"
  by (auto simp add: go_index_def split: if_splits)

lemma get_member:
  assumes "mq_blocks pool \<noteq> []"
  shows "\<exists>x pool'. get policy pool = ((Some x, None), pool') \<and> x \<in> set (mq_blocks pool) \<and>
           mset (mq_blocks pool') = mset (mq_blocks pool) - {#x#} \<and> mq_size pool' = mq_size pool"
proof -
  obtain y ys where bs: "mq_blocks pool = y # ys" using assms by (cases "mq_blocks pool") auto
  define i where "i = min (policy (y # ys)) (length ys)"
  have i: "i < length (y # ys)" by (simp add: i_def)
  have g: "get policy pool = ((Some ((y # ys) ! i), None), pool\<lparr>mq_blocks := take i (y # ys) @ drop (Suc i) (y # ys)\<rparr>)"
    by (simp add: get_def bs i_def Let_def)
  have "y # ys = take i (y # ys) @ (y # ys) ! i # drop (Suc i) (y # ys)"
    using i by (rule id_take_nth_drop)
  then have "mset (y # ys) = mset (take i (y # ys) @ drop (Suc i) (y # ys)) + {#(y # ys) ! i#}"
    by (metis mset_append mset.simps(2) union_mset_add_mset_right add_mset_add_single union_assoc) 
  then have "mset (take i (y # ys) @ drop (Suc i) (y # ys)) = mset (y # ys) - {#(y # ys) ! i#}"
    by simp
  moreover have "(y # ys) ! i \<in> set (y # ys)" using i by (rule nth_mem)
  ultimately show ?thesis using g bs by simp
qed

lemma get_single: "mq_blocks pool = [x] \<Longrightarrow> get policy pool = ((Some x, None), pool\<lparr>mq_blocks := []\<rparr>)"
  by (simp add: get_def)



section \<open>A failing flush in \<^verbatim>\<open>DoWork\<close>\<close>

text \<open>What a run of the loop over the indices \<open>is\<close> leaves alone.\<close>

lemma DoWork_loop_frame:
  "DoWork_loop api is m = Inr (r, m') \<Longrightarrow>
     length (hasWork m') = length (hasWork m) \<and> length (md_c m') = length (md_c m) \<and>
     blasHasWork m' = blasHasWork m \<and> md_b m' = md_b m \<and> arena m' = arena m \<and>
     (\<forall>j. j \<notin> set is \<longrightarrow> hasWork m' ! j = hasWork m ! j \<and> md_c m' ! j = md_c m ! j)"
proof (induction "is" arbitrary: m)
  case Nil
  then show ?case by simp
next
  case (Cons i "is")
  show ?case
  proof (cases "hasWork m ! i")
    case False
    with Cons.prems have "DoWork_loop api is m = Inr (r, m')" by simp
    from Cons.IH [OF this] show ?thesis by simp
  next
    case True
    with Cons.prems obtain cx where cx: "ctx_at m i = Inr cx"
      by (cases "ctx_at m i") simp_all
    define m1 where "m1 = m\<lparr>md_c := (md_c m)[i := Some (ctx_DoWork api cx)]\<rparr>"
    show ?thesis
    proof (cases "ctx_Errors api (ctx_DoWork api cx)")
      case (Some e)
      with Cons.prems True cx have "m' = m1" by (simp add: m1_def Let_def)
      then show ?thesis by (simp add: m1_def)
    next
      case None
      with Cons.prems True cx
      have "DoWork_loop api is (m1\<lparr>hasWork := (hasWork m1)[i := False]\<rparr>) = Inr (r, m')"
        by (simp add: m1_def Let_def)
      from Cons.IH [OF this] show ?thesis by (simp add: m1_def)
    qed
  qed
qed

lemma ctx_at_cong:
  "length (md_c m') = length (md_c m) \<Longrightarrow> md_c m' ! j = md_c m ! j \<Longrightarrow> ctx_at m' j = ctx_at m j"
  by (simp add: ctx_at_def)

lemma DoWork_loop_clean:
  assumes "distinct is" and "\<forall>j \<in> set is. j < length (hasWork m) \<and> (hasWork m ! j \<longrightarrow> flush_ok api m j)"
  shows "\<exists>m'. DoWork_loop api is m = Inr (None, m') \<and> (\<forall>j \<in> set is. \<not> hasWork m' ! j)"
  using assms
proof (induction "is" arbitrary: m)
  case Nil
  then show ?case by simp
next
  case (Cons i "is")
  show ?case
  proof (cases "hasWork m ! i")
    case False
    from Cons.prems have "distinct is" "\<forall>j\<in>set is. j < length (hasWork m) \<and> (hasWork m ! j \<longrightarrow> flush_ok api m j)"
      by simp_all
    from Cons.IH [OF this] obtain m' where m': "DoWork_loop api is m = Inr (None, m')" "\<forall>j \<in> set is. \<not> hasWork m' ! j"
      by blast
    have "i \<notin> set is" using Cons.prems by simp
    with DoWork_loop_frame [OF m'(1)] False have "\<not> hasWork m' ! i" by simp
    with m' False show ?thesis by simp
  next
    case True
    with Cons.prems have "flush_ok api m i" by simp
    then obtain cx where cx: "ctx_at m i = Inr cx" "ctx_Errors api (ctx_DoWork api cx) = None"
      by (cases "ctx_at m i") (simp_all add: flush_ok_def)
    define m1 where "m1 = m\<lparr>md_c := (md_c m)[i := Some (ctx_DoWork api cx)], hasWork := (hasWork m)[i := False]\<rparr>"
    have step: "DoWork_loop api (i # is) m = DoWork_loop api is m1"
      using True cx by (simp add: m1_def Let_def)
    have ni: "i \<notin> set is" "i < length (hasWork m)" using Cons.prems by simp_all
    have "\<forall>j\<in>set is. j < length (hasWork m1) \<and> (hasWork m1 ! j \<longrightarrow> flush_ok api m1 j)"
    proof
      fix j assume j: "j \<in> set is"
      then have "j \<noteq> i" using ni by auto
      then have "ctx_at m1 j = ctx_at m j" "hasWork m1 ! j = hasWork m ! j"
        by (simp_all add: m1_def ctx_at_def)
      then show "j < length (hasWork m1) \<and> (hasWork m1 ! j \<longrightarrow> flush_ok api m1 j)"
        using Cons.prems j by (simp add: flush_ok_def m1_def)
    qed
    moreover have "distinct is" using Cons.prems by simp
    ultimately obtain m' where m': "DoWork_loop api is m1 = Inr (None, m')" "\<forall>j \<in> set is. \<not> hasWork m' ! j"
      using Cons.IH by blast
    have "hasWork m' ! i = hasWork m1 ! i"
      using DoWork_loop_frame [OF m'(1)] ni by simp
    then have "\<not> hasWork m' ! i" using ni by (simp add: m1_def)
    with m' step show ?thesis by simp
  qed
qed

lemma DoWork_loop_append:
  "DoWork_loop api (xs @ ys) m =
     pbind (DoWork_loop api xs m) (\<lambda>(err, m1).
       case err of Some e \<Rightarrow> Inr (Some e, m1) | None \<Rightarrow> DoWork_loop api ys m1)"
proof (induction xs arbitrary: m)
  case Nil
  then show ?case by simp
next
  case (Cons i xs)
  show ?case
  proof (cases "hasWork m ! i")
    case False
    then show ?thesis using Cons.IH by simp
  next
    case True
    show ?thesis
    proof (cases "ctx_at m i")
      case (Inl p)
      with True show ?thesis by simp
    next
      case (Inr cx)
      with True show ?thesis using Cons.IH
        by (cases "ctx_Errors api (ctx_DoWork api cx)") (simp_all add: Let_def)
    qed
  qed
qed



section \<open>A failure during \<^verbatim>\<open>init\<close>\<close>

lemma init_loop_step:
  "init_loop api (i # is) s =
     (case probe api i of
        ProbeOk dev cx attrs fr tot \<Rightarrow> init_loop api is (setup_device api s i)
      | ProbeFailsEarly \<Rightarrow> init_fail_return s
      | ProbeFailsMemInfo attrs \<Rightarrow> init_fail_return (write_attrs i attrs (fst s), snd s)
      | ProbePanics \<Rightarrow> Inl IndexOutOfRange)"
  by (cases s)
     (simp add: probe_def setup_device_def write_attrs_def Let_def
        split: sum.splits prod.splits)

lemma init_loop_ok_prefix:
  "\<forall>j \<in> set xs. probe_ok api j \<Longrightarrow>
     init_loop api (xs @ ys) s = init_loop api ys (foldl (setup_device api) s xs)"
proof (induction xs arbitrary: s)
  case Nil
  then show ?case by simp
next
  case (Cons i xs)
  from Cons.prems have "probe_ok api i" by simp
  then obtain dev cx attrs fr tot where p: "probe api i = ProbeOk dev cx attrs fr tot"
    by (cases "probe api i") (simp_all add: probe_ok_def)
  have "init_loop api ((i # xs) @ ys) s = init_loop api (xs @ ys) (setup_device api s i)"
    by (simp add: init_loop_step p del: init_loop.simps)
  also have "\<dots> = init_loop api ys (foldl (setup_device api) (setup_device api s i) xs)"
    using Cons.prems by (intro Cons.IH) simp
  finally show ?case by simp
qed

lemma write_attrs_frame:
  "slice_lengths (write_attrs i attrs m) = slice_lengths m"
  "shared_state (write_attrs i attrs m) = shared_state m"
  "md_c (write_attrs i attrs m) = md_c m"
  "j \<noteq> i \<Longrightarrow> device_state (write_attrs i attrs m) j = device_state m j"
  "freeMem (write_attrs i attrs m) = freeMem m"
  "totalMem (write_attrs i attrs m) = totalMem m"
  "arena (write_attrs i attrs m) = arena m"
  by (simp_all add: write_attrs_def slice_lengths_def shared_state_def device_state_def device_profile_def)

lemma write_attrs_profile:
  assumes "slice_lengths m = replicate 12 n" "i < n"
  shows "device_profile (write_attrs i attrs m) i = profile_of_attrs attrs"
  using assms
  by (simp add: write_attrs_def slice_lengths_def device_profile_def profile_of_attrs_def
      numeral_eq_Suc)

lemma setup_device_frame:
  "slice_lengths (fst (setup_device api s i)) = slice_lengths (fst s)"
  "shared_state (fst (setup_device api s i)) = shared_state (fst s)"
  "length (md_c (fst (setup_device api s i))) = length (md_c (fst s))"
  "chans (snd (setup_device api s i)) = chans (snd s)"
  "blas_relay (snd (setup_device api s i)) = blas_relay (snd s)"
  "j \<noteq> i \<Longrightarrow> device_state (fst (setup_device api s i)) j = device_state (fst s) j"
  by (cases s; cases "probe api i";
      simp add: setup_device_def write_attrs_def slice_lengths_def shared_state_def
        device_state_def device_profile_def)+

lemma setup_device_relays:
  "probe_ok api i \<Longrightarrow> relays (snd (setup_device api s i)) = relays (snd s) @ [i]"
  by (cases s; cases "probe api i") (simp_all add: setup_device_def probe_ok_def)

lemma setup_device_state:
  assumes "probe api i = ProbeOk dev cx attrs fr tot" "slice_lengths (fst s) = replicate 12 n" "i < n"
  shows "device_state (fst (setup_device api s i)) i = (profile_of_attrs attrs, fr, tot, Some Map.empty)"
proof -
  obtain m rt where s: "s = (m, rt)" by (cases s)
  have len: "slice_lengths m = replicate 12 n" using assms(2) by (simp add: s)
  then have l: "length (freeMem m) = n" "length (totalMem m) = n" "length (arena m) = n"
    by (simp_all add: slice_lengths_def numeral_eq_Suc)
  have "device_profile (fst (setup_device api s i)) i = device_profile (write_attrs i attrs m) i"
    by (simp add: setup_device_def assms(1) s device_profile_def)
  then show ?thesis
    using write_attrs_profile [OF len assms(3)] l assms(3)
    by (simp add: device_state_def setup_device_def assms(1) s write_attrs_frame)
qed

lemma foldl_setup_frame:
  assumes "\<forall>j \<in> set xs. probe_ok api j"
  shows "slice_lengths (fst (foldl (setup_device api) s xs)) = slice_lengths (fst s) \<and>
         shared_state (fst (foldl (setup_device api) s xs)) = shared_state (fst s) \<and>
         length (md_c (fst (foldl (setup_device api) s xs))) = length (md_c (fst s)) \<and>
         chans (snd (foldl (setup_device api) s xs)) = chans (snd s) \<and>
         blas_relay (snd (foldl (setup_device api) s xs)) = blas_relay (snd s) \<and>
         relays (snd (foldl (setup_device api) s xs)) = relays (snd s) @ xs \<and>
         (\<forall>j. j \<notin> set xs \<longrightarrow>
            device_state (fst (foldl (setup_device api) s xs)) j = device_state (fst s) j)"
  using assms
proof (induction xs rule: rev_induct)
  case Nil
  then show ?case by simp
next
  case (snoc x xs)
  then show ?case
    by (simp add: setup_device_frame setup_device_relays)
qed

lemma foldl_setup_state:
  assumes "\<forall>j \<in> set xs. probe_ok api j" "distinct xs" "\<forall>j \<in> set xs. j < n"
    "slice_lengths (fst s) = replicate 12 n"
    "i \<in> set xs" "probe api i = ProbeOk dev cx attrs fr tot"
  shows "device_state (fst (foldl (setup_device api) s xs)) i = (profile_of_attrs attrs, fr, tot, Some Map.empty)"
  using assms(1,2,3,5)
proof (induction xs rule: rev_induct)
  case Nil
  then show ?case by simp
next
  case (snoc x xs)
  have ok: "\<forall>j \<in> set xs. probe_ok api j" using snoc.prems by simp
  have len: "slice_lengths (fst (foldl (setup_device api) s xs)) = replicate 12 n"
    using foldl_setup_frame [OF ok, of s] assms(4) by simp
  show ?case
  proof (cases "i = x")
    case True
    have "x < n" using snoc.prems by simp
    then show ?thesis
      using setup_device_state [OF assms(6) len] True by simp
  next
    case False
    then have "i \<in> set xs" using snoc.prems by simp
    then have "device_state (fst (foldl (setup_device api) s xs)) i = (profile_of_attrs attrs, fr, tot, Some Map.empty)"
      using snoc.IH snoc.prems ok by simp
    then show ?thesis using False by (simp add: setup_device_frame)
  qed
qed

lemma alloc_registry_facts:
  "slice_lengths (fst (alloc_registry n (m, rt))) = replicate 12 n"
  "hasWork (fst (alloc_registry n (m, rt))) = replicate n False"
  "workAvailable (fst (alloc_registry n (m, rt))) = Some (length (chans rt))"
  "initialzed (fst (alloc_registry n (m, rt))) = initialzed m"
  "chans (snd (alloc_registry n (m, rt))) = chans rt @ [False]"
  "relays (snd (alloc_registry n (m, rt))) = relays rt"
  "blas_relay (snd (alloc_registry n (m, rt))) = blas_relay rt"
  "j < n \<Longrightarrow> device_state (fst (alloc_registry n (m, rt))) j = ([0, 0, 0, 0, 0, 0, 0, 0], 0, 0, None)"
  by (simp_all add: alloc_registry_def slice_lengths_def device_state_def device_profile_def numeral_eq_Suc)

lemma init_unfold:
  assumes "\<not> initialzed m" "NumDevices api = Inr devices" "1 \<le> sint devices"
  shows "init api (m, rt) =
     pbind (init_loop api [0..<nat (sint devices)] (alloc_registry (nat (sint devices)) (m, rt)))
       (\<lambda>(finished, m2, rt2).
          if \<not> finished then Inr (m2, rt2)
          else
            pbind (if 0 < length (md_c m2)
                   then pbind (ctx_at m2 0) (\<lambda>cx.
                          Inr (m2\<lparr>md_c := (md_c m2)[0 := Some (SetCurrent api cx)]\<rparr>))
                   else Inr m2) (\<lambda>m3.
              Inr (m3\<lparr>md_m := Some Map.empty, md_f := Some Map.empty, initialzed := True\<rparr>,
                   rt2\<lparr>blas_relay := True\<rparr>)))"
proof -
  have "devices \<noteq> 0" using assms(3) by auto
  moreover have "\<not> sint devices < 0" using assms(3) by simp
  ultimately show ?thesis
    using assms(1,2) by (simp add: init_def alloc_registry_def Let_def)
qed

lemma initFail_open:
  assumes "workAvailable m = Some a" "a < length (chans rt)" "\<not> chans rt ! a"
  shows "initFail (m, rt) =
     Inr (m\<lparr>md_c := [], md_m := None, md_f := None, workAvailable := None\<rparr>,
          rt\<lparr>chans := (chans rt)[a := True]\<rparr>)"
  using assms by (simp add: initFail_def close_chan_def Let_def)



lemma upt_0_2: "[0..<2] = [0, Suc 0]"
  by (simp add: upt_rec numeral_2_eq_2)


section \<open>The fan-in of the work signals\<close>

lemma in_flight_update:
  "i < length ps \<Longrightarrow>
     in_flight (ps[i := p]) + (if ps ! i = AtRange then 0 else 1) = in_flight ps + (if p = AtRange then 0 else 1)"
  unfolding in_flight_def
proof (induction ps arbitrary: i)
  case Nil
  then show ?case by simp
next
  case (Cons q ps)
  then show ?case by (cases i) auto
qed

lemma sum_list_dec:
  "i < length (xs :: nat list) \<Longrightarrow> 0 < xs ! i \<Longrightarrow> Suc (sum_list (xs[i := xs ! i - 1])) = sum_list xs"
proof (induction xs arbitrary: i)
  case Nil
  then show ?case by simp
next
  case (Cons x xs)
  then show ?case by (cases i) auto
qed

lemma hub_inv_step:
  assumes "relay_step s s'" "hub_inv n s"
  shows "hub_inv n s'"
  using assms
proof (induction rule: relay_step.induct)
  case (recv i r m)
  have "in_flight ((pcs r)[i := AtSet]) = Suc (in_flight (pcs r))"
    using in_flight_update [of i "pcs r" AtSet] recv by simp
  moreover have "Suc (sum_list ((sources r)[i := sources r ! i - 1])) = sum_list (sources r)"
    using recv by (intro sum_list_dec) simp_all
  ultimately show ?case
    using recv by (auto simp add: hub_inv_def list_all_iff nth_list_update)
next
  case (mark i r m)
  have "in_flight ((pcs r)[i := AtSend]) = in_flight (pcs r)"
    using in_flight_update [of i "pcs r" AtSend] mark by simp
  then show ?case
    using mark by (auto simp add: hub_inv_def list_all_iff nth_list_update)
next
  case (send i r m)
  have "Suc (in_flight ((pcs r)[i := AtRange])) = in_flight (pcs r)"
    using in_flight_update [of i "pcs r" AtRange] send by simp
  then show ?case
    using send by (auto simp add: hub_inv_def list_all_iff nth_list_update)
qed

lemma hub_inv_start:
  "length (hasWork m) = n \<Longrightarrow> workAvailable m \<noteq> None \<Longrightarrow> hub_inv n (m, relays_start n)"
  by (simp add: hub_inv_def relays_start_def in_flight_def list_all_iff sum_list_replicate)

lemma hub_inv_run:
  assumes "relay_step\<^sup>*\<^sup>* s s'" "hub_inv n s"
  shows "hub_inv n s'"
  using assms by (induction rule: rtranclp_induct) (auto intro: hub_inv_step)

lemma done_counts:
  "relays_done r \<Longrightarrow> in_flight (pcs r) = 0 \<and> sum_list (sources r) = 0"
  by (auto simp add: relays_done_def in_flight_def list_all_iff)

lemma relay_progress:
  assumes "hub_inv n (m, r)" "\<not> relays_done r"
  shows "\<exists>s'. relay_step (m, r) s'"
proof (cases "list_all (\<lambda>p. p = AtRange) (pcs r)")
  case False
  then obtain i where i: "i < length (pcs r)" "pcs r ! i \<noteq> AtRange"
    by (auto simp add: list_all_length)
  have len: "length (hasWork m) = length (pcs r)" "workAvailable m \<noteq> None"
    using assms(1) by (simp_all add: hub_inv_def)
  show ?thesis
  proof (cases "pcs r ! i")
    case AtRange
    with i show ?thesis by simp
  next
    case AtSet
    then show ?thesis using i len relay_step.mark [of i r m] by auto
  next
    case AtSend
    then show ?thesis using i len relay_step.send [of i r m] by auto
  qed
next
  case True
  with assms(2) obtain i where i: "i < length (sources r)" "sources r ! i \<noteq> 0"
    by (auto simp add: relays_done_def list_all_length)
  have "length (pcs r) = length (sources r)" using assms(1) by (simp add: hub_inv_def)
  then have "pcs r ! i = AtRange" "i < length (pcs r)" using True i by (simp_all add: list_all_length)
  then show ?thesis using i relay_step.recv [of i r m] by auto
qed

text \<open>
  C9. Start \<open>n\<close> relays, each with one signal on its source, on a registry whose
  channel is not \<^verbatim>\<open>nil\<close>. In every state that any interleaving of their steps reaches,
  the signals received from the shared channel, the relays between their receive and
  their send, and the signals still on the sources add up to \<open>n\<close>; once every relay has
  forwarded its signal, exactly \<open>n\<close> signals have been received; until then some relay
  can take a step; and a relay that is about to send has its \<open>hasWork\<close> flag set.
\<close>

theorem relay_fan_in:
  assumes "length (hasWork m) = n" and "workAvailable m \<noteq> None"
    and "relay_step\<^sup>*\<^sup>* (m, relays_start n) (m', r')"
  shows "received r' + in_flight (pcs r') + sum_list (sources r') = n \<and>
         (relays_done r' \<longrightarrow> received r' = n) \<and>
         (\<not> relays_done r' \<longrightarrow> (\<exists>s''. relay_step (m', r') s'')) \<and>
         (\<forall>i<n. pcs r' ! i = AtSend \<longrightarrow> hasWork m' ! i)"
proof -
  have inv: "hub_inv n (m', r')"
    using assms(3) hub_inv_start [OF assms(1,2)] by (rule hub_inv_run)
  then have cnt: "received r' + in_flight (pcs r') + sum_list (sources r') = n"
    by (simp add: hub_inv_def)
  moreover have "received r' = n" if "relays_done r'"
    using cnt done_counts [OF that] by simp
  moreover have "\<exists>s''. relay_step (m', r') s''" if "\<not> relays_done r'"
    using inv that by (rule relay_progress)
  moreover have "\<forall>i<n. pcs r' ! i = AtSend \<longrightarrow> hasWork m' ! i"
    using inv by (simp add: hub_inv_def list_all_iff)
  ultimately show ?thesis by blast
qed

lemma two_relays_run:
  "relay_step\<^sup>*\<^sup>* (hub_two, relays_start 2)
     (hub_two\<lparr>hasWork := [True, True]\<rparr>, \<lparr>sources = [0, 0], pcs = [AtRange, AtRange], received = 2\<rparr>)"
proof -
  have s1: "relay_step (hub_two, relays_start 2)
      (hub_two, \<lparr>sources = [0, 1], pcs = [AtSet, AtRange], received = 0\<rparr>)"
    using relay_step.recv [of 0 "relays_start 2" hub_two]
    by (simp add: relays_start_def numeral_2_eq_2)
  have s2: "relay_step (hub_two, \<lparr>sources = [0, 1], pcs = [AtSet, AtRange], received = 0\<rparr>)
      (hub_two, \<lparr>sources = [0, 0], pcs = [AtSet, AtSet], received = 0\<rparr>)"
    using relay_step.recv [of 1 "\<lparr>sources = [0, 1], pcs = [AtSet, AtRange], received = 0\<rparr>" hub_two]
    by simp
  have s3: "relay_step (hub_two, \<lparr>sources = [0, 0], pcs = [AtSet, AtSet], received = 0\<rparr>)
      (hub_two\<lparr>hasWork := [False, True]\<rparr>, \<lparr>sources = [0, 0], pcs = [AtSet, AtSend], received = 0\<rparr>)"
    using relay_step.mark [of 1 "\<lparr>sources = [0, 0], pcs = [AtSet, AtSet], received = 0\<rparr>" hub_two]
    by (simp add: hub_two_def)
  have s4: "relay_step (hub_two\<lparr>hasWork := [False, True]\<rparr>, \<lparr>sources = [0, 0], pcs = [AtSet, AtSend], received = 0\<rparr>)
      (hub_two\<lparr>hasWork := [False, True]\<rparr>, \<lparr>sources = [0, 0], pcs = [AtSet, AtRange], received = 1\<rparr>)"
    using relay_step.send [of 1 "\<lparr>sources = [0, 0], pcs = [AtSet, AtSend], received = 0\<rparr>"
        "hub_two\<lparr>hasWork := [False, True]\<rparr>"]
    by (simp add: hub_two_def)
  have s5: "relay_step (hub_two\<lparr>hasWork := [False, True]\<rparr>, \<lparr>sources = [0, 0], pcs = [AtSet, AtRange], received = 1\<rparr>)
      (hub_two\<lparr>hasWork := [True, True]\<rparr>, \<lparr>sources = [0, 0], pcs = [AtSend, AtRange], received = 1\<rparr>)"
    using relay_step.mark [of 0 "\<lparr>sources = [0, 0], pcs = [AtSet, AtRange], received = 1\<rparr>"
        "hub_two\<lparr>hasWork := [False, True]\<rparr>"]
    by (simp add: hub_two_def)
  have s6: "relay_step (hub_two\<lparr>hasWork := [True, True]\<rparr>, \<lparr>sources = [0, 0], pcs = [AtSend, AtRange], received = 1\<rparr>)
      (hub_two\<lparr>hasWork := [True, True]\<rparr>, \<lparr>sources = [0, 0], pcs = [AtRange, AtRange], received = 2\<rparr>)"
    using relay_step.send [of 0 "\<lparr>sources = [0, 0], pcs = [AtSend, AtRange], received = 1\<rparr>"
        "hub_two\<lparr>hasWork := [True, True]\<rparr>"]
    by (simp add: hub_two_def numeral_2_eq_2)
  from s1 s2 s3 s4 s5 s6 show ?thesis
    by (meson rtranclp.rtrancl_into_rtrancl rtranclp.rtrancl_refl)
qed

theorem relay_fan_in_witness:
  "length (hasWork hub_two) = 2 \<and> workAvailable hub_two \<noteq> None \<and>
   relay_step\<^sup>*\<^sup>* (hub_two, relays_start 2)
     (hub_two\<lparr>hasWork := [True, True]\<rparr>, \<lparr>sources = [0, 0], pcs = [AtRange, AtRange], received = 2\<rparr>) \<and>
   relays_done \<lparr>sources = [0, 0], pcs = [AtRange, AtRange], received = 2\<rparr> \<and>
   received \<lparr>sources = [0, 0], pcs = [AtRange, AtRange], received = 2\<rparr> = 2"
proof -
  have h1: "length (hasWork hub_two) = 2" by (simp add: hub_two_def)
  have h2: "workAvailable hub_two \<noteq> None" by (simp add: hub_two_def)
  have d: "relays_done \<lparr>sources = [0, 0], pcs = [AtRange, AtRange], received = 2\<rparr>"
    by (simp add: relays_done_def)
  from relay_fan_in [OF h1 h2 two_relays_run] d
  have "received \<lparr>sources = [0, 0], pcs = [AtRange, AtRange], received = 2\<rparr> = 2" by blast
  with h1 h2 two_relays_run d show ?thesis by blast
qed

section \<open>The kernel-source registry\<close>



end
